theory Spec2Isabelle
  imports Main "HOL-Library.Sublist" "HOL-Library.Code_Target_Nat"
begin

section \<open>Strings of the host language\<close>

text \<open>
  A JavaScript string is a sequence of UTF-16 code units. A code unit is modelled by its
  numeric value, so that the en dash (U+2013) and the em dash (U+2014) of the time-range
  pattern and the Unicode white space of \<open>\s\<close> are ordinary characters. \<open>js\<close> embeds an
  ASCII literal.
\<close>

type_synonym jschar = nat
type_synonym jsstring = "jschar list"

definition js :: "string \<Rightarrow> jsstring" where
  "js s = map of_char s"

text \<open>The character classes of the regular expressions: \<open>\d\<close>, \<open>\w\<close> and \<open>\s\<close>
  (ECMA-262 WhiteSpace and LineTerminator; \<open>String.prototype.trim\<close> strips the same set).\<close>

definition is_digit :: "jschar \<Rightarrow> bool" where
  "is_digit c = (48 \<le> c \<and> c \<le> 57)"

definition is_word :: "jschar \<Rightarrow> bool" where
  "is_word c = ((97 \<le> c \<and> c \<le> 122) \<or> (65 \<le> c \<and> c \<le> 90) \<or> (48 \<le> c \<and> c \<le> 57) \<or> c = 95)"

definition is_space :: "jschar \<Rightarrow> bool" where
  "is_space c = ((9 \<le> c \<and> c \<le> 13) \<or> c = 32 \<or> c = 160 \<or> c = 5760
     \<or> (8192 \<le> c \<and> c \<le> 8202) \<or> c = 8232 \<or> c = 8233 \<or> c = 8239 \<or> c = 8287
     \<or> c = 12288 \<or> c = 65279)"

text \<open>\<open>String.prototype.toLowerCase\<close>: on a string of Basic Latin code units it maps the
  capitals A to Z to a to z and nothing else. On any other string the result is given by
  the Unicode case tables of the host, which are not embedded: it is the parameter \<open>lc\<close>,
  about which nothing is assumed.\<close>

definition lower_char :: "jschar \<Rightarrow> jschar" where
  "lower_char c = (if 65 \<le> c \<and> c \<le> 90 then c + 32 else c)"

definition toLowerCase :: "(jsstring \<Rightarrow> jsstring) \<Rightarrow> jsstring \<Rightarrow> jsstring" where
  "toLowerCase lc s = (if list_all (\<lambda>c. c < 128) s then map lower_char s else lc s)"

text \<open>\<open>h.includes(k)\<close> (named \<open>str_includes\<close> here) and \<open>href.startsWith("/")\<close>.\<close>

fun str_includes :: "jsstring \<Rightarrow> jsstring \<Rightarrow> bool" where
  "str_includes [] k = (k = [])"
| "str_includes (c # cs) k = (prefix k (c # cs) \<or> str_includes cs k)"

definition startsWith :: "jsstring \<Rightarrow> jsstring \<Rightarrow> bool" where
  "startsWith s p = prefix p s"

section \<open>Regular expressions\<close>

text \<open>
  Every pattern of the source is a sequence of items, each a character class with a greedy
  repetition count or an alternation of literal words. \<open>rests its s\<close> lists, in the order
  in which the backtracking matcher of the host tries them, the remainders of \<open>s\<close> behind a
  match of \<open>its\<close> at the front of \<open>s\<close>: a greedy repetition tries its longest run first,
  an alternation its alternatives from left to right. The head of the list is the match
  that the host reports.
\<close>

datatype item = Rep "jschar \<Rightarrow> bool" nat "nat option" | Alt "jsstring list"

fun item_rests :: "item \<Rightarrow> jsstring \<Rightarrow> jsstring list" where
  "item_rests (Rep cls lo hi) s =
     (let n = length (takeWhile cls s);
          top = (case hi of None \<Rightarrow> n | Some h \<Rightarrow> min h n)
      in map (\<lambda>k. drop k s) (rev [lo ..< Suc top]))"
| "item_rests (Alt ws) s = map (\<lambda>w. drop (length w) s) (filter (\<lambda>w. prefix w s) ws)"

fun rests :: "item list \<Rightarrow> jsstring \<Rightarrow> jsstring list" where
  "rests [] s = [s]"
| "rests (i # is) s = concat (map (rests is) (item_rests i s))"

definition one :: "(jschar \<Rightarrow> bool) \<Rightarrow> item" where
  "one cls = Rep cls 1 (Some 1)"

definition chr :: "jschar \<Rightarrow> item" where
  "chr c = one (\<lambda>x. x = c)"

text \<open>A letter under the \<open>i\<close> flag (without the \<open>u\<close> flag): the letter in either case.\<close>

definition ci :: "jschar \<Rightarrow> item" where
  "ci c = one (\<lambda>x. lower_char x = lower_char c)"

text \<open>\<open>\b\<close> between a preceding and a following character, either of which may be missing
  at an end of the string.\<close>

definition wordb :: "jschar option \<Rightarrow> jschar option \<Rightarrow> bool" where
  "wordb p n = ((case p of None \<Rightarrow> False | Some c \<Rightarrow> is_word c)
               \<noteq> (case n of None \<Rightarrow> False | Some c \<Rightarrow> is_word c))"

definition last_opt :: "jsstring \<Rightarrow> jschar option" where
  "last_opt s = (if s = [] then None else Some (last s))"

definition hd_opt :: "jsstring \<Rightarrow> jschar option" where
  "hd_opt s = (case s of [] \<Rightarrow> None | c # _ \<Rightarrow> Some c)"

text \<open>The unanchored search of \<open>test\<close> and \<open>match\<close>: the start positions from left to
  right, the empty remainder last. \<open>f pre post\<close> is the attempt at one position.\<close>

fun search :: "(jsstring \<Rightarrow> jsstring \<Rightarrow> 'a option) \<Rightarrow> jsstring \<Rightarrow> jsstring \<Rightarrow> 'a option" where
  "search f pre [] = f pre []"
| "search f pre (c # cs) =
     (case f pre (c # cs) of Some x \<Rightarrow> Some x | None \<Rightarrow> search f (pre @ [c]) cs)"

definition first_of :: "'a list \<Rightarrow> 'a option" where
  "first_of xs = (case xs of [] \<Rightarrow> None | x # _ \<Rightarrow> Some x)"

text \<open>\<open>s.replace(/\s+/g, r)\<close> for a replacement \<open>r\<close>, and \<open>trim\<close>.\<close>

function replace_spaces :: "jsstring \<Rightarrow> jsstring \<Rightarrow> jsstring" where
  "replace_spaces r [] = []"
| "replace_spaces r (c # cs) =
     (if is_space c then r @ replace_spaces r (dropWhile is_space cs)
      else c # replace_spaces r cs)"
  by pat_completeness auto
termination
  by (relation "measure (\<lambda>(r, s). length s)")
     (auto simp: less_Suc_eq_le length_dropWhile_le)

definition trim :: "jsstring \<Rightarrow> jsstring" where
  "trim s = rev (dropWhile is_space (rev (dropWhile is_space s)))"

text \<open>\<open>clean(s)\<close> is \<open>String(s || "").replace(/\s+/g, " ").trim()\<close>.\<close>

definition clean :: "jsstring \<Rightarrow> jsstring" where
  "clean s = trim (replace_spaces (js '' '') s)"

section \<open>Small utilities of the scraper\<close>

text \<open>\<open>findHeader\<close>: \<open>headers.findIndex(h => keys.some(k => h.includes(k)))\<close>, with -1
  when no header passes.\<close>

fun findIndex :: "('a \<Rightarrow> bool) \<Rightarrow> 'a list \<Rightarrow> int" where
  "findIndex P [] = -1"
| "findIndex P (x # xs) =
     (if P x then 0 else (let i = findIndex P xs in if i < 0 then -1 else i + 1))"

definition findHeader :: "jsstring list \<Rightarrow> jsstring list \<Rightarrow> int" where
  "findHeader headers keys = findIndex (\<lambda>h. list_ex (\<lambda>k. str_includes h k) keys) headers"

text \<open>\<open>/^https?:\/\//i\<close>.\<close>

definition re_http :: "item list" where
  "re_http = [ci 104, ci 116, ci 116, ci 112, Rep (\<lambda>x. lower_char x = 115) 0 (Some 1),
              chr 58, chr 47, chr 47]"

definition test_http :: "jsstring \<Rightarrow> bool" where
  "test_http s = (rests re_http s \<noteq> [])"

text \<open>\<open>absolutize\<close>; an \<open>undefined\<close> href is \<open>None\<close>, and so is the \<open>null\<close> result.\<close>

definition absolutize :: "jsstring option \<Rightarrow> jsstring \<Rightarrow> jsstring option" where
  "absolutize href baseOrigin =
     (case href of None \<Rightarrow> None
      | Some h \<Rightarrow>
          if h = [] then None
          else if test_http h then Some h
          else if baseOrigin = [] then Some h
          else Some (baseOrigin @ (if startsWith h (js ''/'') then [] else js ''/'') @ h))"

text \<open>\<open>guessCal\<close>: three tests of the shape \<open>/\b(w1|w2|...)\b/\<close> on the lowercased
  text \<open>`${title} ${loc || ""}`\<close>.\<close>

definition bwords_at :: "jsstring list \<Rightarrow> jsstring \<Rightarrow> jsstring \<Rightarrow> unit option" where
  "bwords_at ws pre post =
     (if wordb (last_opt pre) (hd_opt post)
      then first_of (concat (map (\<lambda>r.
             if wordb (last_opt (pre @ take (length post - length r) post)) (hd_opt r)
             then [()] else []) (rests [Alt ws] post)))
      else None)"

definition test_bwords :: "jsstring list \<Rightarrow> jsstring \<Rightarrow> bool" where
  "test_bwords ws s = (search (bwords_at ws) [] s \<noteq> None)"

definition aquatics_words :: "jsstring list" where
  "aquatics_words = [js ''aqua'', js ''water'', js ''swim'', js ''pool'']"

definition court_words :: "jsstring list" where
  "court_words = [js ''pickleball'', js ''basketball'', js ''volleyball'', js ''court'']"

definition community_words :: "jsstring list" where
  "community_words = [js ''yoga'', js ''coffee'', js ''teen'', js ''community'', js ''wellness'']"

definition cal_text :: "(jsstring \<Rightarrow> jsstring) \<Rightarrow> jsstring \<Rightarrow> jsstring option \<Rightarrow> jsstring" where
  "cal_text lc title loc =
     toLowerCase lc (title @ js '' '' @ (case loc of None \<Rightarrow> [] | Some l \<Rightarrow> l))"

definition guessCal :: "(jsstring \<Rightarrow> jsstring) \<Rightarrow> jsstring \<Rightarrow> jsstring option \<Rightarrow> jsstring" where
  "guessCal lc title loc =
     (let t = cal_text lc title loc in
      if test_bwords aquatics_words t then js ''Aquatics''
      else if test_bwords court_words t then js ''Court Sports''
      else if test_bwords community_words t then js ''Community''
      else js ''Schedule'')"

definition colorForCal :: "jsstring \<Rightarrow> jsstring" where
  "colorForCal cal =
     (if cal = js ''Aquatics'' then js ''blue''
      else if cal = js ''Court Sports'' then js ''orange''
      else if cal = js ''Community'' then js ''pink''
      else js ''gray'')"

section \<open>The date and time normalizer\<close>

text \<open>\<open>\d{1,2}\/\d{1,2}\/\d{4}\<close>, \<open>\d{1,2}:\d{2}\s*[AP]M\<close> under the \<open>i\<close> flag, and the
  separator \<open>\s*[...]\s*\<close> whose class holds the hyphen, the en dash and the em dash.\<close>

definition re_date :: "item list" where
  "re_date = [Rep is_digit 1 (Some 2), chr 47, Rep is_digit 1 (Some 2), chr 47,
              Rep is_digit 4 (Some 4)]"

definition re_time :: "item list" where
  "re_time = [Rep is_digit 1 (Some 2), chr 58, Rep is_digit 2 (Some 2), Rep is_space 0 None,
              one (\<lambda>x. lower_char x = 97 \<or> lower_char x = 112), ci 109]"

definition re_sep :: "item list" where
  "re_sep = [Rep is_space 0 None, one (\<lambda>x. x = 45 \<or> x = 8211 \<or> x = 8212),
             Rep is_space 0 None]"

text \<open>The matched text when the remainder behind the match is \<open>r\<close>.\<close>

definition matched :: "jsstring \<Rightarrow> jsstring \<Rightarrow> jsstring" where
  "matched post r = take (length post - length r) post"

definition date_at :: "jsstring \<Rightarrow> jsstring \<Rightarrow> jsstring option" where
  "date_at pre post = first_of (map (matched post) (rests re_date post))"

text \<open>\<open>/\b\d{1,2}\/\d{1,2}\/\d{4}\b/\<close> of the loose parser.\<close>

definition bdate_at :: "jsstring \<Rightarrow> jsstring \<Rightarrow> jsstring option" where
  "bdate_at pre post =
     (if wordb (last_opt pre) (hd_opt post)
      then first_of (concat (map (\<lambda>r.
             if wordb (last_opt (pre @ matched post r)) (hd_opt r) then [matched post r] else [])
             (rests re_date post)))
      else None)"

text \<open>\<open>/(\d{1,2}:\d{2}\s*[AP]M)\s*[...]\s*(\d{1,2}:\d{2}\s*[AP]M)/i\<close>, the class being that of the separator: the two groups.\<close>

definition range_at :: "jsstring \<Rightarrow> jsstring \<Rightarrow> (jsstring \<times> jsstring) option" where
  "range_at pre post =
     first_of (concat (map (\<lambda>r1. concat (map (\<lambda>r2.
        map (\<lambda>r3. (matched post r1, matched r2 r3)) (rests re_time r2))
        (rests re_sep r1))) (rests re_time post)))"

definition time_at :: "jsstring \<Rightarrow> jsstring \<Rightarrow> jsstring option" where
  "time_at pre post = first_of (map (matched post) (rests re_time post))"

definition match_date :: "jsstring \<Rightarrow> jsstring option" where
  "match_date s = search date_at [] s"

definition match_bdate :: "jsstring \<Rightarrow> jsstring option" where
  "match_bdate s = search bdate_at [] s"

definition match_range :: "jsstring \<Rightarrow> (jsstring \<times> jsstring) option" where
  "match_range s = search range_at [] s"

definition test_date :: "jsstring \<Rightarrow> bool" where
  "test_date s = (match_date s \<noteq> None)"

definition test_time :: "jsstring \<Rightarrow> bool" where
  "test_time s = (search time_at [] s \<noteq> None)"

record date_time =
  dt_date :: jsstring
  dt_start :: jsstring
  dt_end :: jsstring

text \<open>\<open>parseDateTime\<close>: the time range is looked for in \<open>timeText || dateText\<close>.\<close>

definition parseDateTime :: "jsstring \<Rightarrow> jsstring \<Rightarrow> date_time option" where
  "parseDateTime dateText timeText =
     (case match_date dateText of None \<Rightarrow> None
      | Some d \<Rightarrow>
         (case match_range (if timeText \<noteq> [] then timeText else dateText) of None \<Rightarrow> None
          | Some (t1, t2) \<Rightarrow>
              Some \<lparr>dt_date = d, dt_start = replace_spaces (js '' '') t1,
                    dt_end = replace_spaces (js '' '') t2\<rparr>))"

definition parseDateTimeLoose :: "jsstring \<Rightarrow> date_time option" where
  "parseDateTimeLoose txt =
     (case match_bdate txt of None \<Rightarrow> None
      | Some d \<Rightarrow>
         (case match_range txt of None \<Rightarrow> None
          | Some (t1, t2) \<Rightarrow>
              Some \<lparr>dt_date = d, dt_start = replace_spaces (js '' '') t1,
                    dt_end = replace_spaces (js '' '') t2\<rparr>))"

section \<open>Time values of the host\<close>

text \<open>
  A \<open>Date\<close> is its time value, an integer count of milliseconds since the epoch; an invalid
  \<open>Date\<close> (\<open>NaN\<close>) is \<open>None\<close>. The abstract operations are those of ECMA-262. The local time
  zone is a fixed offset \<open>tz\<close> in milliseconds east of UTC: daylight-saving transitions
  are not modelled.
\<close>

definition msPerDay :: int where
  "msPerDay = 86400000"



definition DayFromYear :: "int \<Rightarrow> int" where
  "DayFromYear y = 365 * (y - 1970) + (y - 1969) div 4 - (y - 1901) div 100 + (y - 1601) div 400"

definition InLeapYear :: "int \<Rightarrow> bool" where
  "InLeapYear y = (y mod 4 = 0 \<and> (y mod 100 \<noteq> 0 \<or> y mod 400 = 0))"

definition month_start :: "int \<Rightarrow> bool \<Rightarrow> int" where
  "month_start m leap =
     [0, 31, 59, 90, 120, 151, 181, 212, 243, 273, 304, 334] ! nat m
     + (if leap \<and> 2 \<le> m then 1 else 0)"

definition MakeDay :: "int \<Rightarrow> int \<Rightarrow> int \<Rightarrow> int" where
  "MakeDay year month dt =
     (let ym = year + month div 12; mn = month mod 12
      in DayFromYear ym + month_start mn (InLeapYear ym) + dt - 1)"

definition MakeTime :: "int \<Rightarrow> int \<Rightarrow> int \<Rightarrow> int \<Rightarrow> int" where
  "MakeTime h m sec ms = h * 3600000 + m * 60000 + sec * 1000 + ms"

definition MakeDate :: "int \<Rightarrow> int \<Rightarrow> int" where
  "MakeDate day time = day * msPerDay + time"

definition LocalTime :: "int \<Rightarrow> int \<Rightarrow> int" where
  "LocalTime tz t = t + tz"

definition UTC :: "int \<Rightarrow> int \<Rightarrow> int" where
  "UTC tz t = t - tz"



definition getHours :: "int \<Rightarrow> int \<Rightarrow> int" where
  "getHours tz t = (LocalTime tz t div 3600000) mod 24"

definition getMinutes :: "int \<Rightarrow> int \<Rightarrow> int" where
  "getMinutes tz t = (LocalTime tz t div 60000) mod 60"




text \<open>
  \<open>new Date(s)\<close> for a string that is not in the ISO format is left to the host by ECMA-262;
  the parsers therefore take it as a parameter \<open>D\<close>. \<open>legacyDate\<close> is a model of what the
  V8 host does with strings of the shape \<open>M/D/YYYY h:mm AM\<close>, with white space between the
  year and the hour and between the minutes and the AM/PM marker: the fields are read as
  local civil time, a month outside 1..12, a day outside 1..31, an hour outside 0..12 or a
  minute outside 0..59 gives an invalid date, the hour is taken modulo 12 and 12 is added
  for PM, and a year below 100 is moved into 1950..2049. Every other string, also one
  without white space before the marker, is outside this model and gives \<open>None\<close>. The
  model serves the examples only; no theorem about the parsers depends on it.
\<close>

definition digits_val :: "jsstring \<Rightarrow> int" where
  "digits_val ds = foldl (\<lambda>a c. 10 * a + (int c - 48)) 0 ds"

definition legacy_year :: "int \<Rightarrow> int" where
  "legacy_year y = (if 0 \<le> y \<and> y \<le> 49 then y + 2000 else if 50 \<le> y \<and> y \<le> 99 then y + 1900 else y)"

definition legacy_fields :: "jsstring \<Rightarrow> (jsstring \<times> jsstring \<times> jsstring \<times> jsstring \<times> jsstring \<times> jsstring) option" where
  "legacy_fields s =
     (let mo = takeWhile is_digit s;
          r1 = dropWhile is_digit s;
          dy = takeWhile is_digit (tl r1);
          r2 = dropWhile is_digit (tl r1);
          yr = takeWhile is_digit (tl r2);
          g1 = takeWhile is_space (dropWhile is_digit (tl r2));
          r3 = dropWhile is_space (dropWhile is_digit (tl r2));
          hh = takeWhile is_digit r3;
          r4 = dropWhile is_digit r3;
          mi = takeWhile is_digit (tl r4);
          g2 = takeWhile is_space (dropWhile is_digit (tl r4));
          r5 = dropWhile is_space (dropWhile is_digit (tl r4))
      in if hd_opt r1 = Some 47 \<and> hd_opt r2 = Some 47 \<and> hd_opt r4 = Some 58
            \<and> mo \<noteq> [] \<and> dy \<noteq> [] \<and> yr \<noteq> [] \<and> hh \<noteq> [] \<and> mi \<noteq> []
            \<and> g1 \<noteq> [] \<and> g2 \<noteq> []
         then Some (mo, dy, yr, hh, mi, map lower_char r5) else None)"

definition legacyDate :: "int \<Rightarrow> jsstring \<Rightarrow> int option" where
  "legacyDate tz s =
     (case legacy_fields s of None \<Rightarrow> None
      | Some (mo, dy, yr, hh, mi, ap) \<Rightarrow>
         (let month = digits_val mo; day = digits_val dy; year = legacy_year (digits_val yr);
              hour = digits_val hh; minute = digits_val mi in
          if (ap = js ''am'' \<or> ap = js ''pm'')
             \<and> 1 \<le> month \<and> month \<le> 12 \<and> 1 \<le> day \<and> day \<le> 31
             \<and> hour \<le> 12 \<and> minute \<le> 59
          then Some (UTC tz (MakeDate (MakeDay year (month - 1) day)
                 (MakeTime (hour mod 12 + (if ap = js ''pm'' then 12 else 0)) minute 0 0)))
          else None))"

text \<open>
  \<open>toISO\<close>: \<open>d.toISOString()\<close> of a valid date, \<open>null\<close> for an invalid one. An ISO string
  is represented by the time value it denotes: by ECMA-262 \<open>toISOString\<close> is defined on
  every valid time value, its result is never empty, and \<open>new Date\<close> of the result
  gives the time value back.
\<close>

type_synonym isostring = int

definition toISO :: "(jsstring \<Rightarrow> int option) \<Rightarrow> jsstring \<Rightarrow> isostring option" where
  "toISO D s = D s"

section \<open>The document tree\<close>

text \<open>
  \<open>cheerio.load\<close> is a library outside the repository: the parsers take it as a parameter
  \<open>load\<close> from the HTML text to the top-level nodes of the parsed document. An element
  has a tag name, attributes and children; \<open>text()\<close> is the concatenation of the text nodes
  below a node, in document order.
\<close>

datatype node = Text jsstring | Comment jsstring
  | Elem jsstring "(jsstring \<times> jsstring) list" "node list"

fun text_of :: "node \<Rightarrow> jsstring" where
  "text_of (Text d) = d"
| "text_of (Comment d) = []"
| "text_of (Elem t as cs) = concat (map text_of cs)"

text \<open>A selection is the list of its elements in document order. \<open>sel_text\<close> is \<open>text()\<close>
  of a selection, the empty string for the empty selection.\<close>

definition sel_text :: "node list \<Rightarrow> jsstring" where
  "sel_text sel = concat (map text_of sel)"

fun subtree :: "node \<Rightarrow> node list" where
  "subtree (Elem t as cs) = Elem t as cs # concat (map subtree cs)"
| "subtree n = []"

fun children :: "node \<Rightarrow> node list" where
  "children (Elem t as cs) = cs"
| "children n = []"

definition descendants :: "node \<Rightarrow> node list" where
  "descendants n = concat (map subtree (children n))"

fun tag_of :: "node \<Rightarrow> jsstring" where
  "tag_of (Elem t as cs) = t"
| "tag_of n = []"

fun attr :: "node \<Rightarrow> jsstring \<Rightarrow> jsstring option" where
  "attr (Elem t as cs) a = map_of as a"
| "attr n a = None"

text \<open>\<open>$(el).find("b")\<close> and \<open>$(el).find("a b")\<close>: the \<open>b\<close> elements below \<open>el\<close>, for the
  second below an \<open>a\<close> element that is itself below \<open>el\<close>.\<close>

definition find_tag :: "jsstring \<Rightarrow> node \<Rightarrow> node list" where
  "find_tag b el = filter (\<lambda>n. tag_of n = b) (descendants el)"

fun under :: "jsstring \<Rightarrow> jsstring \<Rightarrow> bool \<Rightarrow> node \<Rightarrow> node list" where
  "under a b inside (Elem t as cs) =
     (if inside \<and> t = b then [Elem t as cs] else [])
     @ concat (map (under a b (inside \<or> t = a)) cs)"
| "under a b inside n = []"

definition find_under :: "jsstring \<Rightarrow> jsstring \<Rightarrow> node \<Rightarrow> node list" where
  "find_under a b el = concat (map (under a b False) (children el))"

text \<open>\<open>$("table")\<close> and the other selections over the whole document.\<close>

definition all_elements :: "node list \<Rightarrow> node list" where
  "all_elements doc = concat (map subtree doc)"

definition eq_sel :: "node list \<Rightarrow> int \<Rightarrow> node list" where
  "eq_sel sel i = (if 0 \<le> i \<and> nat i < length sel then [sel ! nat i] else [])"

definition first_sel :: "node list \<Rightarrow> node list" where
  "first_sel sel = take 1 sel"

definition sel_find_tag :: "jsstring \<Rightarrow> node list \<Rightarrow> node list" where
  "sel_find_tag b sel = concat (map (find_tag b) sel)"

definition sel_attr :: "node list \<Rightarrow> jsstring \<Rightarrow> jsstring option" where
  "sel_attr sel a = (case sel of [] \<Rightarrow> None | n # _ \<Rightarrow> attr n a)"

text \<open>The class selector \<open>.c\<close> (the token \<open>c\<close> between white space or the ends of the class
  attribute) and the attribute selector \<open>[class*="c"]\<close>.\<close>

definition token_at :: "jsstring \<Rightarrow> jsstring \<Rightarrow> jsstring \<Rightarrow> unit option" where
  "token_at c pre post =
     (if prefix c post \<and> (pre = [] \<or> is_space (last pre))
         \<and> (drop (length c) post = [] \<or> is_space (hd (drop (length c) post)))
      then Some () else None)"

definition has_class :: "jsstring \<Rightarrow> node \<Rightarrow> bool" where
  "has_class c n = (case attr n (js ''class'') of None \<Rightarrow> False
     | Some v \<Rightarrow> search (token_at c) [] v \<noteq> None)"

definition class_contains :: "jsstring \<Rightarrow> node \<Rightarrow> bool" where
  "class_contains c n = (case attr n (js ''class'') of None \<Rightarrow> False
     | Some v \<Rightarrow> str_includes v c)"

text \<open>\<open>'tr, li, .row, .result, .item, [class*="result"], [class*="row"]'\<close>\<close>

definition is_block :: "node \<Rightarrow> bool" where
  "is_block n = (tag_of n = js ''tr'' \<or> tag_of n = js ''li'' \<or> has_class (js ''row'') n
     \<or> has_class (js ''result'') n \<or> has_class (js ''item'') n
     \<or> class_contains (js ''result'') n \<or> class_contains (js ''row'') n)"

section \<open>The structured table parser\<close>

record RawEvent =
  cal :: jsstring
  title :: jsstring
  startISO :: isostring
  endISO :: isostring
  url :: "jsstring option"
  location :: "jsstring option"

record col_idx =
  idxDate :: int
  idxTime :: int
  idxAct :: int
  idxLoc :: int

text \<open>The diagnostics: \<open>idx\<close> is \<open>{}\<close> until the columns are resolved (\<open>None\<close>); the two
  fallback fields are absent (\<open>None\<close>) unless the handler adds them.\<close>

record diag =
  foundTable :: bool
  headers :: "jsstring list"
  idx :: "col_idx option"
  fallbackUsed :: "bool option"
  fallbackCount :: "nat option"

record parse_result =
  events :: "RawEvent list"
  pdiag :: diag

definition hasHead :: "node \<Rightarrow> bool" where
  "hasHead el = (3 \<le> length (find_under (js ''thead'') (js ''th'') el))"

definition hasBody :: "node \<Rightarrow> bool" where
  "hasBody el = (1 \<le> length (find_under (js ''tbody'') (js ''tr'') el))"

text \<open>The \<open>each\<close> loop over the tables: \<open>$table\<close> is assigned once.\<close>

definition selectTable :: "node list \<Rightarrow> node option" where
  "selectTable tables =
     foldl (\<lambda>tbl el. if hasHead el \<and> hasBody el \<and> tbl = None then Some el else tbl) None tables"

text \<open>The values a row computes before it decides: the cells, the activity cell, the
  title, and the date and time by the strict parse or else the loose one on the text of
  the activity cell.\<close>

definition row_tds :: "node \<Rightarrow> node list" where
  "row_tds tr = find_tag (js ''td'') tr"

definition row_actCell :: "col_idx \<Rightarrow> node \<Rightarrow> node list" where
  "row_actCell ix tr =
     (if 0 \<le> idxAct ix then eq_sel (row_tds tr) (idxAct ix) else eq_sel (row_tds tr) 0)"

definition row_title :: "col_idx \<Rightarrow> node \<Rightarrow> jsstring" where
  "row_title ix tr =
     (let titleRaw = clean (sel_text (row_actCell ix tr))
      in if titleRaw \<noteq> [] then titleRaw
         else clean (sel_text (first_sel (sel_find_tag (js ''a'') (row_actCell ix tr)))))"

definition row_dt :: "col_idx \<Rightarrow> node \<Rightarrow> date_time option" where
  "row_dt ix tr =
     (let dateText = (if 0 \<le> idxDate ix
                      then clean (sel_text (eq_sel (row_tds tr) (idxDate ix))) else []);
          timeText = (if 0 \<le> idxTime ix
                      then clean (sel_text (eq_sel (row_tds tr) (idxTime ix))) else [])
      in case parseDateTime dateText timeText of Some d \<Rightarrow> Some d
         | None \<Rightarrow> parseDateTimeLoose (sel_text (row_actCell ix tr)))"

definition detailRow :: "(jsstring \<Rightarrow> jsstring) \<Rightarrow> (jsstring \<Rightarrow> int option) \<Rightarrow> col_idx \<Rightarrow> jsstring \<Rightarrow> node \<Rightarrow> RawEvent option" where
  "detailRow lc D ix baseOrigin tr =
     (if row_tds tr = [] then None
      else if row_title ix tr = [] then None
      else
       (let href = sel_attr (first_sel (filter (\<lambda>n. attr n (js ''href'') \<noteq> None)
                     (sel_find_tag (js ''a'') (row_actCell ix tr)))) (js ''href'');
            urlAbs = absolutize href baseOrigin;
            loc = (if 0 \<le> idxLoc ix
                   then Some (clean (sel_text (eq_sel (row_tds tr) (idxLoc ix)))) else None)
        in case row_dt ix tr of None \<Rightarrow> None | Some d \<Rightarrow>
          (case toISO D (dt_date d @ js '' '' @ dt_start d) of None \<Rightarrow> None | Some s \<Rightarrow>
          (case toISO D (dt_date d @ js '' '' @ dt_end d) of None \<Rightarrow> None | Some e \<Rightarrow>
             Some \<lparr>cal = guessCal lc (row_title ix tr) loc, title = row_title ix tr,
                   startISO = s, endISO = e, url = urlAbs, location = loc\<rparr>))))"

text \<open>An \<open>each\<close> loop that pushes to \<open>out\<close>: a row that returns early pushes nothing.\<close>

definition push_each :: "('a \<Rightarrow> 'b option) \<Rightarrow> 'a list \<Rightarrow> 'b list" where
  "push_each f xs = foldl (\<lambda>out x. case f x of None \<Rightarrow> out | Some ev \<Rightarrow> out @ [ev]) [] xs"

text \<open>The part of \<open>parseDetailHtml\<close> behind the choice of the table: the header
  texts, the four column indices, the rows.\<close>

definition table_headers :: "(jsstring \<Rightarrow> jsstring) \<Rightarrow> node \<Rightarrow> jsstring list" where
  "table_headers lc tbl =
     map (\<lambda>th. toLowerCase lc (clean (text_of th))) (find_under (js ''thead'') (js ''th'') tbl)"

definition resolve_idx :: "jsstring list \<Rightarrow> col_idx" where
  "resolve_idx hs =
     \<lparr>idxDate = findHeader hs [js ''date''],
      idxTime = findHeader hs [js ''time'', js ''hours'', js ''start''],
      idxAct = findHeader hs [js ''activity'', js ''class'', js ''title'',
                 js ''description'', js ''program'', js ''course''],
      idxLoc = findHeader hs [js ''location'', js ''room'', js ''facility'']\<rparr>"

definition table_rows :: "node \<Rightarrow> node list" where
  "table_rows tbl = find_under (js ''tbody'') (js ''tr'') tbl"

definition parseTable :: "(jsstring \<Rightarrow> jsstring) \<Rightarrow> (jsstring \<Rightarrow> int option) \<Rightarrow> jsstring \<Rightarrow> diag \<Rightarrow> node \<Rightarrow> parse_result" where
  "parseTable lc D baseOrigin dg tbl =
     (let hs = table_headers lc tbl;
          ix = resolve_idx hs
      in \<lparr>events = push_each (detailRow lc D ix baseOrigin) (table_rows tbl),
          pdiag = dg\<lparr>foundTable := True, headers := hs, idx := Some ix\<rparr>\<rparr>)"

definition all_tables :: "node list \<Rightarrow> node list" where
  "all_tables doc = filter (\<lambda>n. tag_of n = js ''table'') (all_elements doc)"

definition diag0 :: diag where
  "diag0 = \<lparr>foundTable = False, headers = [], idx = None,
            fallbackUsed = None, fallbackCount = None\<rparr>"

definition parseDetailHtml :: "(jsstring \<Rightarrow> jsstring) \<Rightarrow> (jsstring \<Rightarrow> int option) \<Rightarrow> (jsstring \<Rightarrow> node list) \<Rightarrow> jsstring \<Rightarrow> jsstring \<Rightarrow> parse_result" where
  "parseDetailHtml lc D load html baseOrigin =
     (let doc = load html; dg = diag0
      in case selectTable (all_tables doc) of
           None \<Rightarrow> \<lparr>events = [], pdiag = dg\<lparr>foundTable := False\<rparr>\<rparr>
         | Some tbl \<Rightarrow> parseTable lc D baseOrigin dg tbl)"

section \<open>The fallback text parser\<close>

fun split_on :: "jschar \<Rightarrow> jsstring \<Rightarrow> jsstring list" where
  "split_on c [] = [[]]"
| "split_on c (x # xs) =
     (case split_on c xs of
        [] \<Rightarrow> [[]]
      | p # ps \<Rightarrow> if x = c then [] # p # ps else (x # p) # ps)"

definition block_title :: "node \<Rightarrow> jsstring" where
  "block_title el =
     (let txt = clean (text_of el);
          t0 = clean (sel_text (first_sel (find_tag (js ''a'') el)))
      in if t0 \<noteq> [] then t0
         else take 160 (case find (\<lambda>s. s \<noteq> [] \<and> \<not> test_time s)
                              (map clean (split_on 10 txt)) of
                          None \<Rightarrow> [] | Some s \<Rightarrow> s))"

definition fallbackBlock :: "(jsstring \<Rightarrow> jsstring) \<Rightarrow> (jsstring \<Rightarrow> int option) \<Rightarrow> jsstring \<Rightarrow> node \<Rightarrow> RawEvent option" where
  "fallbackBlock lc D baseOrigin el =
     (let txt = clean (text_of el) in
      if \<not> test_date txt then None else
      case parseDateTimeLoose txt of None \<Rightarrow> None | Some d \<Rightarrow>
       (if block_title el = [] then None
        else
         (let href = sel_attr (first_sel (filter (\<lambda>n. attr n (js ''href'') \<noteq> None)
                       (find_tag (js ''a'') el))) (js ''href'');
              urlAbs = absolutize href baseOrigin
          in case toISO D (dt_date d @ js '' '' @ dt_start d) of None \<Rightarrow> None | Some s \<Rightarrow>
            (case toISO D (dt_date d @ js '' '' @ dt_end d) of None \<Rightarrow> None | Some e \<Rightarrow>
               Some \<lparr>cal = guessCal lc (block_title el) None, title = block_title el,
                     startISO = s, endISO = e, url = urlAbs, location = None\<rparr>))))"

record fallback_result =
  fb_events :: "RawEvent list"
  fb_mode :: jsstring

definition all_blocks :: "node list \<Rightarrow> node list" where
  "all_blocks doc = filter is_block (all_elements doc)"

definition parseFallback :: "(jsstring \<Rightarrow> jsstring) \<Rightarrow> (jsstring \<Rightarrow> int option) \<Rightarrow> (jsstring \<Rightarrow> node list) \<Rightarrow> jsstring \<Rightarrow> jsstring \<Rightarrow> fallback_result" where
  "parseFallback lc D load html baseOrigin =
     (let doc = load html
      in \<lparr>fb_events = push_each (fallbackBlock lc D baseOrigin) (all_blocks doc),
          fb_mode = js ''fallback''\<rparr>)"

section \<open>The handler: fallback and projection onto the week grid\<close>

text \<open>Lines 41 to 46 of the handler: the fallback parser runs when the structured parser
  returned no event, and the diagnostics then record it.\<close>

definition rawStage :: "(jsstring \<Rightarrow> jsstring) \<Rightarrow> (jsstring \<Rightarrow> int option) \<Rightarrow> (jsstring \<Rightarrow> node list) \<Rightarrow> jsstring \<Rightarrow> jsstring \<Rightarrow> RawEvent list \<times> diag" where
  "rawStage lc D load html baseOrigin =
     (let r = parseDetailHtml lc D load html baseOrigin
      in if length (events r) = 0
         then (let fb = parseFallback lc D load html baseOrigin
               in (fb_events fb,
                   (pdiag r)\<lparr>fallbackUsed := Some True,
                             fallbackCount := Some (length (fb_events fb))\<rparr>))
         else (events r, pdiag r))"

datatype error = TypeError

record GridEvent =
  ge_id :: "jsstring \<times> isostring"
  ge_name :: jsstring
  dayIndex :: int
  startMinutes :: int
  endMinutes :: int
  ge_url :: "jsstring option"
  color :: "jsstring \<times> jsstring \<times> jsstring"

record CalendarBucket =
  label :: jsstring
  bucket_events :: "GridEvent list"

text \<open>\<open>CALS\<close> is an object used as a dictionary; its keys keep their insertion order.\<close>

type_synonym cals = "(jsstring \<times> CalendarBucket) list"

definition PALETTE :: "(jsstring \<times> (jsstring \<times> jsstring \<times> jsstring)) list" where
  "PALETTE =
     [(js ''blue'', (js ''bg-blue-100'', js ''text-blue-800'', js ''border-blue-500'')),
      (js ''orange'', (js ''bg-orange-100'', js ''text-orange-800'', js ''border-orange-500'')),
      (js ''pink'', (js ''bg-pink-100'', js ''text-pink-800'', js ''border-pink-500'')),
      (js ''gray'', (js ''bg-gray-200'', js ''text-gray-800'', js ''border-gray-500''))]"

text \<open>\<open>ev.cal.toLowerCase().replace(/\s+/g, "")\<close> and the key \<open>... || "schedule"\<close>.\<close>

definition slug :: "(jsstring \<Rightarrow> jsstring) \<Rightarrow> jsstring \<Rightarrow> jsstring" where
  "slug lc c = replace_spaces [] (toLowerCase lc c)"

definition bucket_key :: "(jsstring \<Rightarrow> jsstring) \<Rightarrow> jsstring \<Rightarrow> jsstring" where
  "bucket_key lc c = (if slug lc c = [] then js ''schedule'' else slug lc c)"

text \<open>The property names that a fresh object inherits: \<open>CALS[key]\<close> is truthy for them
  although no bucket was stored, and \<open>CALS[key].events.push\<close> then throws.\<close>

definition proto_keys :: "jsstring list" where
  "proto_keys = [js ''constructor'', js ''__proto__'', js ''hasOwnProperty'',
     js ''isPrototypeOf'', js ''propertyIsEnumerable'', js ''toLocaleString'', js ''toString'',
     js ''valueOf'', js ''__defineGetter__'', js ''__defineSetter__'', js ''__lookupGetter__'',
     js ''__lookupSetter__'']"

text \<open>\<open>Math.floor((s.getTime() - monday.getTime()) / 86400000)\<close>: on the integer time
  values of two valid dates the quotient of the doubles, rounded down, is the integer
  quotient rounded down.\<close>

definition day_index :: "int \<Rightarrow> RawEvent \<Rightarrow> int" where
  "day_index monday ev = (startISO ev - monday) div 86400000"

definition grid_of :: "int \<Rightarrow> int \<Rightarrow> RawEvent \<Rightarrow> (jsstring \<times> jsstring \<times> jsstring) \<Rightarrow> GridEvent" where
  "grid_of tz monday ev col =
     \<lparr>ge_id = (title ev, startISO ev), ge_name = title ev, dayIndex = day_index monday ev,
      startMinutes = getHours tz (startISO ev) * 60 + getMinutes tz (startISO ev),
      endMinutes = getHours tz (endISO ev) * 60 + getMinutes tz (endISO ev),
      ge_url = (case url ev of None \<Rightarrow> None | Some u \<Rightarrow> if u = [] then None else Some u),
      color = col\<rparr>"

definition push_event :: "cals \<Rightarrow> jsstring \<Rightarrow> jsstring \<Rightarrow> GridEvent \<Rightarrow> error + cals" where
  "push_event c key lbl g =
     (case map_of c key of
        Some b \<Rightarrow> Inr (map (\<lambda>(k, b). if k = key then (k, b\<lparr>bucket_events := bucket_events b @ [g]\<rparr>)
                                 else (k, b)) c)
      | None \<Rightarrow> if key \<in> set proto_keys then Inl TypeError
                else Inr (c @ [(key, \<lparr>label = lbl, bucket_events = [g]\<rparr>)]))"

text \<open>One round of the loop of lines 51 to 78: \<open>continue\<close> leaves \<open>CALS\<close> as it is, a
  failing destructuring of \<open>PALETTE[colorKey]\<close> throws.\<close>

definition project_step :: "(jsstring \<Rightarrow> jsstring) \<Rightarrow> int \<Rightarrow> int \<Rightarrow> cals \<Rightarrow> RawEvent \<Rightarrow> error + cals" where
  "project_step lc tz monday c ev =
     (if title ev = [] \<or> cal ev = [] then Inr c
      else if day_index monday ev < 0 \<or> day_index monday ev > 6 then Inr c
      else case map_of PALETTE (colorForCal (cal ev)) of
             None \<Rightarrow> Inl TypeError
           | Some col \<Rightarrow> push_event c (bucket_key lc (cal ev)) (cal ev) (grid_of tz monday ev col))"





section \<open>Predicates of the specification\<close>

text \<open>The strings an item and a pattern describe, without any order of trial.\<close>

fun item_lang :: "item \<Rightarrow> jsstring \<Rightarrow> bool" where
  "item_lang (Rep cls lo hi) m =
     (list_all cls m \<and> lo \<le> length m \<and> (case hi of None \<Rightarrow> True | Some h \<Rightarrow> length m \<le> h))"
| "item_lang (Alt ws) m = (m \<in> set ws)"

fun lang :: "item list \<Rightarrow> jsstring \<Rightarrow> bool" where
  "lang [] m = (m = [])"
| "lang (i # is) m = (\<exists>a b. m = a @ b \<and> item_lang i a \<and> lang is b)"

text \<open>Building blocks for the shape of a token: one part behind the other, a run of a
  character class of bounded length, a run of any length, a single character.\<close>

definition seq :: "(jsstring \<Rightarrow> bool) \<Rightarrow> (jsstring \<Rightarrow> bool) \<Rightarrow> jsstring \<Rightarrow> bool" where
  "seq P Q m = (\<exists>a b. m = a @ b \<and> P a \<and> Q b)"

definition run_of :: "(jschar \<Rightarrow> bool) \<Rightarrow> nat \<Rightarrow> nat \<Rightarrow> jsstring \<Rightarrow> bool" where
  "run_of cls lo hi a = (list_all cls a \<and> lo \<le> length a \<and> length a \<le> hi)"

definition any_run :: "(jschar \<Rightarrow> bool) \<Rightarrow> jsstring \<Rightarrow> bool" where
  "any_run cls a = list_all cls a"

definition single :: "(jschar \<Rightarrow> bool) \<Rightarrow> jsstring \<Rightarrow> bool" where
  "single cls a = (\<exists>c. a = [c] \<and> cls c)"

definition is_date_token :: "jsstring \<Rightarrow> bool" where
  "is_date_token =
     seq (run_of is_digit 1 2) (seq (single (\<lambda>c. c = 47))
    (seq (run_of is_digit 1 2) (seq (single (\<lambda>c. c = 47)) (run_of is_digit 4 4))))"

definition is_time_token :: "jsstring \<Rightarrow> bool" where
  "is_time_token =
     seq (run_of is_digit 1 2) (seq (single (\<lambda>c. c = 58)) (seq (run_of is_digit 2 2)
    (seq (any_run is_space)
    (seq (single (\<lambda>c. c \<in> set (js ''APap''))) (single (\<lambda>c. c \<in> set (js ''Mm'')))))))"

definition is_separator :: "jsstring \<Rightarrow> bool" where
  "is_separator =
     seq (any_run is_space) (seq (single (\<lambda>c. c = 45 \<or> c = 8211 \<or> c = 8212))
         (any_run is_space))"

definition is_time_range :: "jsstring \<Rightarrow> bool" where
  "is_time_range = seq is_time_token (seq is_separator is_time_token)"

definition contains :: "(jsstring \<Rightarrow> bool) \<Rightarrow> jsstring \<Rightarrow> bool" where
  "contains P s = (\<exists>pre m post. s = pre @ m @ post \<and> P m)"

text \<open>An occurrence of a token in a text that starts where no occurrence starts earlier:
  \<open>pre\<close> is the text before it.\<close>

definition leftmost :: "(jsstring \<Rightarrow> bool) \<Rightarrow> jsstring \<Rightarrow> jsstring \<Rightarrow> jsstring \<Rightarrow> bool" where
  "leftmost P s pre m =
     (\<exists>post. s = pre @ m @ post \<and> P m
        \<and> (\<forall>pre' m' post'. s = pre' @ m' @ post' \<and> P m' \<longrightarrow> length pre \<le> length pre'))"

text \<open>What the strict normalizer returns: the leftmost date token of the date field, and
  the two times of the leftmost time range of the text searched, which is the time field
  if that is not empty and the date field otherwise, each with its runs of white space
  replaced by one blank.\<close>

definition strict_result :: "jsstring \<Rightarrow> jsstring \<Rightarrow> date_time \<Rightarrow> bool" where
  "strict_result d t r =
     ((\<exists>pre. leftmost is_date_token d pre (dt_date r))
      \<and> (\<exists>pre t1 sp t2. leftmost is_time_range (if t \<noteq> [] then t else d) pre (t1 @ sp @ t2)
            \<and> is_time_token t1 \<and> is_separator sp \<and> is_time_token t2
            \<and> dt_start r = replace_spaces (js '' '') t1
            \<and> dt_end r = replace_spaces (js '' '') t2))"

text \<open>The condition of the specification read literally: a date token in the date field,
  and a time range in the time field or, failing that, in the date field.\<close>

definition strict_as_claimed :: "jsstring \<Rightarrow> jsstring \<Rightarrow> bool" where
  "strict_as_claimed d t =
     (contains is_date_token d \<and> (contains is_time_range t \<or> contains is_time_range d))"

text \<open>The two texts that a row hands to the strict normalizer.\<close>

definition row_dateText :: "col_idx \<Rightarrow> node \<Rightarrow> jsstring" where
  "row_dateText ix tr =
     (if 0 \<le> idxDate ix then clean (sel_text (eq_sel (row_tds tr) (idxDate ix))) else [])"

definition row_timeText :: "col_idx \<Rightarrow> node \<Rightarrow> jsstring" where
  "row_timeText ix tr =
     (if 0 \<le> idxTime ix then clean (sel_text (eq_sel (row_tds tr) (idxTime ix))) else [])"

text \<open>A keyword occurs as a whole word: no word character directly before or behind it.\<close>

definition has_word :: "jsstring list \<Rightarrow> jsstring \<Rightarrow> bool" where
  "has_word ws s = (\<exists>pre w post. s = pre @ w @ post \<and> w \<in> set ws
      \<and> (pre = [] \<or> \<not> is_word (last pre)) \<and> (post = [] \<or> \<not> is_word (hd post)))"

definition wordy :: "jsstring \<Rightarrow> bool" where
  "wordy w = (w \<noteq> [] \<and> is_word (hd w) \<and> is_word (last w))"

text \<open>An href that begins with \<open>http://\<close> or \<open>https://\<close>, in any case of the letters.\<close>

definition is_absolute :: "jsstring \<Rightarrow> bool" where
  "is_absolute h = (map lower_char (take 7 h) = js ''http://''
     \<or> map lower_char (take 8 h) = js ''https://'')"

text \<open>Link absolutization in the words of the specification, without the guards of the
  source: an href that begins with \<open>http://\<close> or \<open>https://\<close> is unchanged, any other is
  prefixed with the base origin and a \<open>/\<close> if it has none.\<close>

definition absolutize_as_claimed :: "jsstring \<Rightarrow> jsstring \<Rightarrow> jsstring" where
  "absolutize_as_claimed h b =
     (if startsWith h (js ''http://'') \<or> startsWith h (js ''https://'') then h
      else b @ (if startsWith h (js ''/'') then [] else js ''/'') @ h)"

text \<open>The classifier in the words of the specification: the lowercased text contains a
  keyword of the group anywhere.\<close>

definition guessCal_as_claimed :: "(jsstring \<Rightarrow> jsstring) \<Rightarrow> jsstring \<Rightarrow> jsstring option \<Rightarrow> jsstring" where
  "guessCal_as_claimed lc ttl loc =
     (let t = cal_text lc ttl loc in
      if list_ex (str_includes t) aquatics_words then js ''Aquatics''
      else if list_ex (str_includes t) court_words then js ''Court Sports''
      else if list_ex (str_includes t) community_words then js ''Community''
      else js ''Schedule'')"

text \<open>Header resolution in the words of the specification: the keywords of a role in their
  order of priority, the first keyword that some header contains deciding the column.\<close>

fun findHeader_as_claimed :: "jsstring list \<Rightarrow> jsstring list \<Rightarrow> int" where
  "findHeader_as_claimed hs [] = -1"
| "findHeader_as_claimed hs (k # ks) =
     (let i = findIndex (\<lambda>h. str_includes h k) hs
      in if 0 \<le> i then i else findHeader_as_claimed hs ks)"

text \<open>The four calendar names and the four bucket keys.\<close>

definition cal_names :: "jsstring list" where
  "cal_names = [js ''Aquatics'', js ''Court Sports'', js ''Community'', js ''Schedule'']"

definition cal_slugs :: "jsstring list" where
  "cal_slugs = [js ''aquatics'', js ''courtsports'', js ''community'', js ''schedule'']"



section \<open>Sample documents\<close>

text \<open>A lowercasing of the host that leaves every code unit outside Basic Latin as it is;
  a table with four headers and two rows, the second without AM/PM markers; a table
  with two headers; a table that also qualifies; a list item of the fallback shape. They
  are the concrete inputs at which the theorems below are instantiated.\<close>

definition ascii_lc :: "jsstring \<Rightarrow> jsstring" where
  "ascii_lc s = map lower_char s"

definition elem :: "string \<Rightarrow> node list \<Rightarrow> node" where
  "elem t cs = Elem (js t) [] cs"

definition sample_row :: node where
  "sample_row = elem ''tr'' [elem ''td'' [Text (js ''01/15/2024'')],
     elem ''td'' [Text (js ''10:00 AM - 11:30 AM'')],
     elem ''td'' [Elem (js ''a'') [(js ''href'', js ''/detail/123'')]
                  [Text (js ''Aqua Basketball Clinic'')]],
     elem ''td'' [Text (js ''Pool'')]]"

definition sample_bad_row :: node where
  "sample_bad_row = elem ''tr'' [elem ''td'' [Text (js ''01/15/2024'')],
     elem ''td'' [Text (js ''10:00 - 11:30'')],
     elem ''td'' [Text (js ''Yoga'')], elem ''td'' [Text (js ''Studio'')]]"

definition sample_table :: node where
  "sample_table = elem ''table''
     [elem ''thead'' [elem ''tr'' [elem ''th'' [Text (js ''Date'')],
        elem ''th'' [Text (js ''Time'')], elem ''th'' [Text (js ''Activity'')],
        elem ''th'' [Text (js ''Location'')]]],
      elem ''tbody'' [sample_row, sample_bad_row]]"

definition small_table :: node where
  "small_table = elem ''table''
     [elem ''thead'' [elem ''tr'' [elem ''th'' [Text (js ''Date'')],
        elem ''th'' [Text (js ''Time'')]]],
      elem ''tbody'' [elem ''tr'' [elem ''td'' [Text (js ''01/16/2024'')],
        elem ''td'' [Text (js ''1:00 PM - 2:00 PM'')]]]]"

definition other_table :: node where
  "other_table = elem ''table''
     [elem ''thead'' [elem ''tr'' [elem ''th'' [Text (js ''Class'')],
        elem ''th'' [Text (js ''Date/Time'')], elem ''th'' [Text (js ''Room'')]]],
      elem ''tbody'' [elem ''tr'' [elem ''td'' [Text (js ''Teen Night'')],
        elem ''td'' [Text (js ''01/17/2024 6:00 PM - 8:00 PM'')],
        elem ''td'' [Text (js ''Gym'')]]]]"

definition sample_list :: node where
  "sample_list = elem ''ul''
     [elem ''li'' [Text (js ''02/01/2024 ''),
        Elem (js ''a'') [(js ''href'', js ''gym'')] [Text (js ''Open Gym'')],
        Text (js '' 9:00 AM - 10:00 AM'')]]"

definition sample_load :: "jsstring \<Rightarrow> node list" where
  "sample_load html =
     (if html = js ''table'' then [elem ''html'' [elem ''body'' [sample_table]]]
      else if html = js ''tables''
        then [elem ''html'' [elem ''body'' [small_table, sample_table, other_table]]]
      else if html = js ''small'' then [elem ''html'' [elem ''body'' [small_table]]]
      else [elem ''html'' [elem ''body'' [sample_list]]])"

definition sample_event :: RawEvent where
  "sample_event = \<lparr>cal = js ''Aquatics'', title = js ''Aqua Basketball Clinic'',
     startISO = 1705312800000, endISO = 1705318200000,
     url = Some (js ''https://example.org/detail/123''), location = Some (js ''Pool'')\<rparr>"

definition sample_fb_event :: RawEvent where
  "sample_fb_event = \<lparr>cal = js ''Schedule'', title = js ''Open Gym'',
     startISO = 1706778000000, endISO = 1706781600000,
     url = Some (js ''https://example.org/gym''), location = None\<rparr>"

text \<open>A row whose time cell has no AM/PM markers while its activity cell repeats the date
  and the time with markers, the event it yields, and the column indices of the sample
  table.\<close>

definition retry_row :: node where
  "retry_row = elem ''tr'' [elem ''td'' [Text (js ''01/15/2024'')],
     elem ''td'' [Text (js ''10:00 - 11:30'')],
     elem ''td'' [Text (js ''Yoga 01/15/2024 10:00 AM - 11:30 AM'')],
     elem ''td'' [Text (js ''Studio'')]]"

definition retry_event :: RawEvent where
  "retry_event = \<lparr>cal = js ''Community'', title = js ''Yoga 01/15/2024 10:00 AM - 11:30 AM'',
     startISO = 1705312800000, endISO = 1705318200000,
     url = None, location = Some (js ''Studio'')\<rparr>"

definition sample_idx :: col_idx where
  "sample_idx = \<lparr>idxDate = 0, idxTime = 1, idxAct = 2, idxLoc = 3\<rparr>"




section \<open>Facts about the matcher\<close>

lemma js_simps: "js [] = []" "js (c # cs) = of_char c # js cs"
  by (simp_all add: js_def)

lemma rests_one: "rests (one cls # its) s = (case s of [] \<Rightarrow> [] | c # cs \<Rightarrow> if cls c then rests its cs else [])"
  by (cases s) (auto simp: one_def Let_def)

lemma rests_chr: "rests (chr k # its) s = (case s of [] \<Rightarrow> [] | c # cs \<Rightarrow> if c = k then rests its cs else [])"
  unfolding chr_def by (rule rests_one)

lemma rests_ci: "rests (ci k # its) s = (case s of [] \<Rightarrow> [] | c # cs \<Rightarrow> if lower_char c = lower_char k then rests its cs else [])"
  unfolding ci_def by (rule rests_one)

lemma rests_opt: "rests (Rep cls 0 (Some (Suc 0)) # its) s =
   (case s of [] \<Rightarrow> rests its [] | c # cs \<Rightarrow> if cls c then rests its cs @ rests its s else rests its s)"
  by (cases s) (auto simp: Let_def)

lemma lower_consts: "lower_char 104 = 104" "lower_char 116 = 116" "lower_char 112 = 112"
   "lower_char 109 = 109" "lower_char 58 = 58" "lower_char 47 = 47"
  by (simp_all add: lower_char_def)

lemma lower_char_sym [simp]: "lower_char c = 58 \<longleftrightarrow> c = 58" "lower_char c = 47 \<longleftrightarrow> c = 47"
  by (auto simp: lower_char_def)

lemma http_tail: "(rests [Rep (\<lambda>x. lower_char x = 115) 0 (Some (Suc 0)), chr 58, chr 47, chr 47] x \<noteq> [])
   = (map lower_char (take 3 x) = [58, 47, 47] \<or> map lower_char (take 4 x) = [115, 58, 47, 47])"
  by (simp add: rests_chr rests_opt del: rests.simps(2) split: list.splits)

lemma test_http_iff: "test_http h = is_absolute h"
  unfolding test_http_def re_http_def is_absolute_def
  by (simp add: rests_ci lower_consts js_simps http_tail del: rests.simps(2) split: list.splits)

lemma take_all_takeWhile:
  assumes "k \<le> length (takeWhile P s)"
  shows "list_all P (take k s)"
proof -
  have "take k s = take k (takeWhile P s @ dropWhile P s)" by simp
  also have "\<dots> = take k (takeWhile P s)" using assms by (simp del: takeWhile_dropWhile_id)
  finally have "set (take k s) \<subseteq> set (takeWhile P s)" by (simp add: set_take_subset)
  then show ?thesis by (auto simp: list_all_iff dest: set_takeWhileD)
qed

lemma length_takeWhile_ge:
  "list_all P m \<Longrightarrow> length m \<le> length (takeWhile P (m @ r))"
  by (simp add: list_all_iff takeWhile_append2)

lemma item_rests_iff:
  "r \<in> set (item_rests i s) \<longleftrightarrow> (\<exists>m. s = m @ r \<and> item_lang i m)"
proof (cases i)
  case (Rep cls lo hi)
  show ?thesis
  proof
    assume "r \<in> set (item_rests i s)"
    then obtain k where k: "r = drop k s" "lo \<le> k"
        "k \<le> length (takeWhile cls s)" "case hi of None \<Rightarrow> True | Some h \<Rightarrow> k \<le> h"
      using Rep by (auto simp: Let_def split: option.splits)
    have "k \<le> length s" using k(3) length_takeWhile_le[of cls s] by linarith
    then have "s = take k s @ r" "length (take k s) = k" using k(1) by simp_all
    moreover have "list_all cls (take k s)" using k(3) by (rule take_all_takeWhile)
    ultimately show "\<exists>m. s = m @ r \<and> item_lang i m"
      using Rep k(2,4) by (intro exI[of _ "take k s"]) (auto split: option.splits)
  next
    assume "\<exists>m. s = m @ r \<and> item_lang i m"
    then obtain m where m: "s = m @ r" "list_all cls m" "lo \<le> length m"
        "case hi of None \<Rightarrow> True | Some h \<Rightarrow> length m \<le> h"
      using Rep by auto
    have "length m \<le> length (takeWhile cls s)" using m(1,2) length_takeWhile_ge by simp
    moreover have "r = drop (length m) s" using m(1) by simp
    ultimately show "r \<in> set (item_rests i s)"
      using Rep m(3,4) by (auto simp: Let_def split: option.splits intro!: image_eqI[of _ _ "length m"])
  qed
next
  case (Alt ws)
  show ?thesis
  proof
    assume "r \<in> set (item_rests i s)"
    then obtain w where "w \<in> set ws" "prefix w s" "r = drop (length w) s"
      using Alt by auto
    then show "\<exists>m. s = m @ r \<and> item_lang i m"
      using Alt by (auto simp: prefix_def intro!: exI[of _ w])
  next
    assume "\<exists>m. s = m @ r \<and> item_lang i m"
    then show "r \<in> set (item_rests i s)"
      using Alt by (auto intro!: image_eqI)
  qed
qed

lemma rests_iff:
  "r \<in> set (rests its s) \<longleftrightarrow> (\<exists>m. s = m @ r \<and> lang its m)"
proof (induction its arbitrary: s)
  case Nil
  show ?case by auto
next
  case (Cons i its)
  show ?case
  proof
    assume "r \<in> set (rests (i # its) s)"
    then obtain q where q: "q \<in> set (item_rests i s)" "r \<in> set (rests its q)"
      by auto
    from q(1) obtain a where a: "s = a @ q" "item_lang i a"
      unfolding item_rests_iff by blast
    from q(2) obtain b where b: "q = b @ r" "lang its b"
      unfolding Cons.IH by blast
    have "s = (a @ b) @ r" using a(1) b(1) by simp
    moreover have "lang (i # its) (a @ b)" using a(2) b(2) by auto
    ultimately show "\<exists>m. s = m @ r \<and> lang (i # its) m" by blast
  next
    assume "\<exists>m. s = m @ r \<and> lang (i # its) m"
    then obtain a b where ab: "s = (a @ b) @ r" "item_lang i a" "lang its b"
      by auto
    have "b @ r \<in> set (item_rests i s)"
      unfolding item_rests_iff using ab(1,2) by auto
    moreover have "r \<in> set (rests its (b @ r))"
      unfolding Cons.IH using ab(3) by blast
    ultimately show "r \<in> set (rests (i # its) s)" by auto
  qed
qed

lemma search_iff:
  "search f pre s \<noteq> None \<longleftrightarrow> (\<exists>a b. s = a @ b \<and> f (pre @ a) b \<noteq> None)"
proof (induction s arbitrary: pre)
  case Nil
  show ?case by simp
next
  case (Cons c cs)
  have "search f pre (c # cs) \<noteq> None \<longleftrightarrow> f pre (c # cs) \<noteq> None \<or> search f (pre @ [c]) cs \<noteq> None"
    by (auto split: option.splits)
  also have "\<dots> \<longleftrightarrow> f pre (c # cs) \<noteq> None \<or> (\<exists>a b. cs = a @ b \<and> f (pre @ c # a) b \<noteq> None)"
    unfolding Cons.IH by simp
  also have "\<dots> \<longleftrightarrow> (\<exists>a b. c # cs = a @ b \<and> f (pre @ a) b \<noteq> None)"
    (is "?L \<longleftrightarrow> ?R")
  proof
    assume ?L
    then show ?R
    proof
      assume "f pre (c # cs) \<noteq> None"
      then show ?R by (intro exI[of _ "[]"] exI[of _ "c # cs"]) simp
    next
      assume "\<exists>a b. cs = a @ b \<and> f (pre @ c # a) b \<noteq> None"
      then obtain a b where "cs = a @ b" "f (pre @ c # a) b \<noteq> None" by blast
      then show ?R by (intro exI[of _ "c # a"] exI[of _ b]) simp
    qed
  next
    assume ?R
    then obtain a b where ab: "c # cs = a @ b" "f (pre @ a) b \<noteq> None" by blast
    show ?L
    proof (cases a)
      case Nil
      then show ?thesis using ab by simp
    next
      case (Cons x xs)
      then show ?thesis using ab by auto
    qed
  qed
  finally show ?case .
qed

lemma first_of_None [simp]: "first_of xs = None \<longleftrightarrow> xs = []"
  by (cases xs) (simp_all add: first_of_def)

lemma lang_Alt: "lang [Alt ws] m \<longleftrightarrow> m \<in> set ws"
  by simp

lemma matched_append [simp]: "matched (w @ r) r = w"
  by (simp add: matched_def)

lemma first_of_concat_if:
  "first_of (concat (map (\<lambda>r. if P r then [g r] else []) xs)) \<noteq> None \<longleftrightarrow> (\<exists>r\<in>set xs. P r)"
  by (induction xs) (auto simp: first_of_def)

lemma bwords_at_iff:
  "bwords_at ws a b \<noteq> None \<longleftrightarrow>
     (\<exists>w r. b = w @ r \<and> w \<in> set ws \<and> wordb (last_opt a) (hd_opt b)
        \<and> wordb (last_opt (a @ w)) (hd_opt r))"
proof (cases "wordb (last_opt a) (hd_opt b)")
  case False
  then have "bwords_at ws a b = None" by (simp add: bwords_at_def)
  then show ?thesis using False by blast
next
  case True
  let ?P = "\<lambda>r. wordb (last_opt (a @ take (length b - length r) b)) (hd_opt r)"
  have "bwords_at ws a b = first_of (concat (map (\<lambda>r. if ?P r then [()] else []) (rests [Alt ws] b)))"
    using True by (simp add: bwords_at_def del: rests.simps)
  then have "bwords_at ws a b \<noteq> None \<longleftrightarrow> (\<exists>r\<in>set (rests [Alt ws] b). ?P r)"
    by (simp only: first_of_concat_if)
  also have "\<dots> \<longleftrightarrow> (\<exists>w r. b = w @ r \<and> w \<in> set ws \<and> wordb (last_opt (a @ w)) (hd_opt r))"
    unfolding rests_iff Bex_def lang_Alt by fastforce
  finally show ?thesis using True by blast
qed

lemma wordb_left:
  "w \<noteq> [] \<Longrightarrow> is_word (hd w) \<Longrightarrow>
     wordb (last_opt a) (hd_opt (w @ r)) \<longleftrightarrow> (a = [] \<or> \<not> is_word (last a))"
  by (cases w) (auto simp: wordb_def last_opt_def hd_opt_def)

lemma wordb_right:
  "w \<noteq> [] \<Longrightarrow> is_word (last w) \<Longrightarrow>
     wordb (last_opt (a @ w)) (hd_opt r) \<longleftrightarrow> (r = [] \<or> \<not> is_word (hd r))"
  by (cases r) (auto simp: wordb_def last_opt_def hd_opt_def)

lemma test_bwords_iff:
  assumes "list_all wordy ws"
  shows "test_bwords ws s = has_word ws s"
proof -
  have w: "\<And>w. w \<in> set ws \<Longrightarrow> w \<noteq> [] \<and> is_word (hd w) \<and> is_word (last w)"
    using assms by (auto simp: list_all_iff wordy_def)
  have "test_bwords ws s \<longleftrightarrow>
     (\<exists>a b. s = a @ b \<and> (\<exists>w r. b = w @ r \<and> w \<in> set ws \<and> wordb (last_opt a) (hd_opt b)
        \<and> wordb (last_opt (a @ w)) (hd_opt r)))"
    unfolding test_bwords_def search_iff bwords_at_iff by simp
  also have "\<dots> \<longleftrightarrow> (\<exists>a w r. s = a @ w @ r \<and> w \<in> set ws \<and> wordb (last_opt a) (hd_opt (w @ r))
        \<and> wordb (last_opt (a @ w)) (hd_opt r))"
    by blast
  also have "\<dots> \<longleftrightarrow> (\<exists>a w r. s = a @ w @ r \<and> w \<in> set ws \<and> (a = [] \<or> \<not> is_word (last a))
        \<and> (r = [] \<or> \<not> is_word (hd r)))"
    using w wordb_left wordb_right by (metis (no_types, lifting))
  finally show ?thesis unfolding has_word_def .
qed

lemma wordy_lists: "list_all wordy aquatics_words" "list_all wordy court_words" "list_all wordy community_words"
  by (simp_all add: aquatics_words_def court_words_def community_words_def wordy_def is_word_def js_simps)

lemma lang_Cons: "lang (i # its) = seq (item_lang i) (lang its)"
  by (rule ext) (simp add: seq_def)

lemma seq_Nil: "seq P (lang []) = P"
  by (rule ext) (simp add: seq_def)

lemma item_lang_bounded: "item_lang (Rep cls lo (Some hi)) = run_of cls lo hi"
  by (rule ext) (simp add: run_of_def)

lemma item_lang_star: "item_lang (Rep cls 0 None) = any_run cls"
  by (rule ext) (simp add: any_run_def)

lemma item_lang_one: "item_lang (one cls) = single cls"
proof (rule ext)
  fix a
  show "item_lang (one cls) a = single cls a"
    unfolding one_def single_def
    by (cases a; cases "tl a") auto
qed

lemma lower_ap: "(\<lambda>x. lower_char x = 97 \<or> lower_char x = 112) = (\<lambda>c. c \<in> set (js ''APap''))"
  by (rule ext) (auto simp: lower_char_def js_simps)

lemma lower_m: "(\<lambda>x. lower_char x = lower_char 109) = (\<lambda>c. c \<in> set (js ''Mm''))"
  by (rule ext) (auto simp: lower_char_def js_simps)

lemmas lang_unfold = lang_Cons seq_Nil item_lang_bounded item_lang_star item_lang_one chr_def ci_def

lemma lang_re_date: "lang re_date = is_date_token"
  unfolding re_date_def is_date_token_def lang_unfold ..

lemma lang_re_time: "lang re_time = is_time_token"
  unfolding re_time_def is_time_token_def lang_unfold lower_ap lower_m ..

lemma lang_re_sep: "lang re_sep = is_separator"
  unfolding re_sep_def is_separator_def lang_unfold ..

lemma rests_nonempty: "rests its s \<noteq> [] \<longleftrightarrow> (\<exists>m r. s = m @ r \<and> lang its m)"
proof -
  have "rests its s \<noteq> [] \<longleftrightarrow> (\<exists>r. r \<in> set (rests its s))"
    by (cases "rests its s") auto
  then show ?thesis unfolding rests_iff by blast
qed

lemma rests_ne: "rests its s \<noteq> [] \<longleftrightarrow> (\<exists>r. r \<in> set (rests its s))"
  by (cases "rests its s") auto

lemma contains_alt: "(\<exists>a b. s = a @ b \<and> (\<exists>m r. b = m @ r \<and> P m)) \<longleftrightarrow> contains P s"
  unfolding contains_def by blast

lemma date_at_iff: "date_at pre post \<noteq> None \<longleftrightarrow> (\<exists>m r. post = m @ r \<and> is_date_token m)"
  unfolding date_at_def by (simp add: rests_nonempty lang_re_date)

lemma match_date_iff: "match_date s \<noteq> None \<longleftrightarrow> contains is_date_token s"
  unfolding match_date_def search_iff date_at_iff by (rule contains_alt)

lemma range_at_iff: "range_at pre post \<noteq> None \<longleftrightarrow> (\<exists>m r. post = m @ r \<and> is_time_range m)"
proof -
  have "range_at pre post \<noteq> None \<longleftrightarrow>
     (\<exists>r1\<in>set (rests re_time post). \<exists>r2\<in>set (rests re_sep r1). \<exists>r3. r3 \<in> set (rests re_time r2))"
    unfolding range_at_def first_of_None by (auto simp: rests_ne)
  also have "\<dots> \<longleftrightarrow> (\<exists>r1 t1. post = t1 @ r1 \<and> is_time_token t1 \<and>
       (\<exists>r2 sp. r1 = sp @ r2 \<and> is_separator sp \<and> (\<exists>r3 t2. r2 = t2 @ r3 \<and> is_time_token t2)))"
    unfolding rests_iff Bex_def lang_re_time lang_re_sep by blast
  also have "\<dots> \<longleftrightarrow> (\<exists>m r. post = m @ r \<and> is_time_range m)"
    unfolding is_time_range_def seq_def by (metis append.assoc)
  finally show ?thesis .
qed

lemma match_range_iff: "match_range s \<noteq> None \<longleftrightarrow> contains is_time_range s"
  unfolding match_range_def search_iff range_at_iff by (rule contains_alt)

lemma parseDateTime_iff:
  "parseDateTime d t \<noteq> None \<longleftrightarrow>
     contains is_date_token d \<and> contains is_time_range (if t \<noteq> [] then t else d)"
proof -
  have "parseDateTime d t \<noteq> None \<longleftrightarrow>
     match_date d \<noteq> None \<and> match_range (if t \<noteq> [] then t else d) \<noteq> None"
    unfolding parseDateTime_def by (auto split: option.splits)
  then show ?thesis unfolding match_date_iff match_range_iff .
qed

section \<open>Facts about the parsers\<close>

lemma foldl_push: "foldl (\<lambda>out x. case f x of None \<Rightarrow> out | Some ev \<Rightarrow> out @ [ev]) acc xs
    = acc @ List.map_filter f xs"
  by (induction xs arbitrary: acc) (auto simp: List.map_filter_simps split: option.splits)

lemma push_each_eq: "push_each f xs = List.map_filter f xs"
  unfolding push_each_def by (simp add: foldl_push)

lemma set_push_each: "set (push_each f xs) = {y. \<exists>x\<in>set xs. f x = Some y}"
  unfolding push_each_eq by (force simp: List.map_filter_def)



lemma detailRow_iff:
  "detailRow lc D ix b tr \<noteq> None \<longleftrightarrow>
     row_tds tr \<noteq> [] \<and> row_title ix tr \<noteq> [] \<and>
     (\<exists>d. row_dt ix tr = Some d \<and> D (dt_date d @ js '' '' @ dt_start d) \<noteq> None
            \<and> D (dt_date d @ js '' '' @ dt_end d) \<noteq> None)"
  unfolding detailRow_def toISO_def by (auto simp: Let_def split: option.splits)

lemma detailRow_SomeD:
  assumes "detailRow lc D ix b tr = Some ev"
  shows "title ev \<noteq> [] \<and> (\<exists>x. D x = Some (startISO ev)) \<and> (\<exists>y. D y = Some (endISO ev))"
  using assms unfolding detailRow_def toISO_def
  by (auto simp: Let_def split: option.splits if_splits)

lemma fallbackBlock_iff:
  "fallbackBlock lc D b el \<noteq> None \<longleftrightarrow>
     test_date (clean (text_of el)) \<and> block_title el \<noteq> [] \<and>
     (\<exists>d. parseDateTimeLoose (clean (text_of el)) = Some d
            \<and> D (dt_date d @ js '' '' @ dt_start d) \<noteq> None
            \<and> D (dt_date d @ js '' '' @ dt_end d) \<noteq> None)"
  unfolding fallbackBlock_def toISO_def by (auto simp: Let_def split: option.splits)

lemma fallbackBlock_SomeD:
  assumes "fallbackBlock lc D b el = Some ev"
  shows "title ev \<noteq> [] \<and> (\<exists>x. D x = Some (startISO ev)) \<and> (\<exists>y. D y = Some (endISO ev))"
  using assms unfolding fallbackBlock_def toISO_def
  by (auto simp: Let_def split: option.splits if_splits)

lemma events_parseTable:
  "events (parseTable lc D b dg tbl) =
     List.map_filter (detailRow lc D (resolve_idx (table_headers lc tbl)) b) (table_rows tbl)"
  unfolding parseTable_def by (simp add: Let_def push_each_eq)

lemma parseTable_events_ok:
  assumes "ev \<in> set (events (parseTable lc D b dg tbl))"
  shows "title ev \<noteq> [] \<and> (\<exists>x. D x = Some (startISO ev)) \<and> (\<exists>y. D y = Some (endISO ev))"
  using assms unfolding parseTable_def
  by (auto simp: Let_def set_push_each dest!: detailRow_SomeD)

lemma parseDetailHtml_events_ok:
  assumes "ev \<in> set (events (parseDetailHtml lc D load html b))"
  shows "title ev \<noteq> [] \<and> (\<exists>x. D x = Some (startISO ev)) \<and> (\<exists>y. D y = Some (endISO ev))"
  using assms parseTable_events_ok unfolding parseDetailHtml_def
  by (auto simp: Let_def split: option.splits)

lemma parseFallback_events_ok:
  assumes "ev \<in> set (fb_events (parseFallback lc D load html b))"
  shows "title ev \<noteq> [] \<and> (\<exists>x. D x = Some (startISO ev)) \<and> (\<exists>y. D y = Some (endISO ev))"
  using assms unfolding parseFallback_def
  by (auto simp: Let_def set_push_each dest!: fallbackBlock_SomeD)

section \<open>The sample documents, evaluated\<close>

lemma sample_detail: "parseDetailHtml ascii_lc (legacyDate 0) sample_load (js ''table'') (js ''https://example.org'')
   = \<lparr>events = [sample_event], pdiag = \<lparr>foundTable = True,
        headers = [js ''date'', js ''time'', js ''activity'', js ''location''],
        idx = Some \<lparr>idxDate = 0, idxTime = 1, idxAct = 2, idxLoc = 3\<rparr>,
        fallbackUsed = None, fallbackCount = None\<rparr>\<rparr>"
  by code_simp

lemma sample_fallback: "parseFallback ascii_lc (legacyDate 0) sample_load (js ''list'') (js ''https://example.org'')
   = \<lparr>fb_events = [sample_fb_event], fb_mode = js ''fallback''\<rparr>"
  by code_simp

lemma sample_detail_list: "parseDetailHtml ascii_lc (legacyDate 0) sample_load (js ''list'') (js ''https://example.org'')
   = \<lparr>events = [], pdiag = diag0\<rparr>"
  by code_simp

section \<open>Facts about the table choice, the handler and the classifier\<close>







lemma fallbackUsed_detail: "fallbackUsed (pdiag (parseDetailHtml lc D load html b)) = None"
  by (simp add: parseDetailHtml_def parseTable_def Let_def diag0_def split: option.splits)

lemma guessCal_names: "guessCal lc t l \<in> set cal_names"
  unfolding guessCal_def cal_names_def Let_def by simp

lemma cal_names_cases:
  "c \<in> set cal_names \<Longrightarrow>
     c = js ''Aquatics'' \<or> c = js ''Court Sports'' \<or> c = js ''Community'' \<or> c = js ''Schedule''"
  by (simp add: cal_names_def)

lemma slug_of_names:
  "slug lc (js ''Aquatics'') = js ''aquatics''" "slug lc (js ''Court Sports'') = js ''courtsports''"
  "slug lc (js ''Community'') = js ''community''" "slug lc (js ''Schedule'') = js ''schedule''"
  by code_simp+

lemma key_of_names:
  "bucket_key lc (js ''Aquatics'') = js ''aquatics''" "bucket_key lc (js ''Court Sports'') = js ''courtsports''"
  "bucket_key lc (js ''Community'') = js ''community''" "bucket_key lc (js ''Schedule'') = js ''schedule''"
  by code_simp+

lemma color_of_names:
  "colorForCal (js ''Aquatics'') = js ''blue''" "colorForCal (js ''Court Sports'') = js ''orange''"
  "colorForCal (js ''Community'') = js ''pink''" "colorForCal (js ''Schedule'') = js ''gray''"
  by code_simp+

lemma palette_keys:
  "map_of PALETTE (js ''blue'') = Some (js ''bg-blue-100'', js ''text-blue-800'', js ''border-blue-500'')"
  "map_of PALETTE (js ''orange'') = Some (js ''bg-orange-100'', js ''text-orange-800'', js ''border-orange-500'')"
  "map_of PALETTE (js ''pink'') = Some (js ''bg-pink-100'', js ''text-pink-800'', js ''border-pink-500'')"
  "map_of PALETTE (js ''gray'') = Some (js ''bg-gray-200'', js ''text-gray-800'', js ''border-gray-500'')"
  by code_simp+

lemma slugs_not_proto:
  "js ''aquatics'' \<notin> set proto_keys" "js ''courtsports'' \<notin> set proto_keys"
  "js ''community'' \<notin> set proto_keys" "js ''schedule'' \<notin> set proto_keys"
  by code_simp+

lemma names_nonempty:
  "js ''Aquatics'' \<noteq> []" "js ''Court Sports'' \<noteq> []" "js ''Community'' \<noteq> []" "js ''Schedule'' \<noteq> []"
  "js ''aquatics'' \<noteq> []" "js ''courtsports'' \<noteq> []" "js ''community'' \<noteq> []" "js ''schedule'' \<noteq> []"
  by (simp_all add: js_simps)

lemma palette_defined: "c \<in> set cal_names \<Longrightarrow> \<exists>col. map_of PALETTE (colorForCal c) = Some col"
  by (auto dest!: cal_names_cases simp: color_of_names palette_keys)

lemma key_in_slugs: "c \<in> set cal_names \<Longrightarrow> bucket_key lc c \<in> set cal_slugs \<and> bucket_key lc c \<notin> set proto_keys \<and> slug lc c \<noteq> [] \<and> bucket_key lc c = slug lc c"
  by (auto dest!: cal_names_cases simp: key_of_names slug_of_names slugs_not_proto names_nonempty cal_slugs_def)

lemma push_event_ok: "key \<notin> set proto_keys \<Longrightarrow> \<exists>c'. push_event c key lbl g = Inr c'"
  by (simp add: push_event_def split: option.splits)

lemma project_step_ok:
  assumes "cal ev \<in> set cal_names"
  shows "\<exists>c'. project_step lc tz monday c ev = Inr c'"
proof -
  obtain col where "map_of PALETTE (colorForCal (cal ev)) = Some col"
    using palette_defined[OF assms] by blast
  moreover have "bucket_key lc (cal ev) \<notin> set proto_keys" using key_in_slugs[OF assms] by blast
  ultimately show ?thesis
    unfolding project_step_def using push_event_ok by auto
qed

section \<open>Facts about the normalizer, header resolution and the projection\<close>

lemma legacyDate_shift: "legacyDate tz s = map_option (\<lambda>t. t - tz) (legacyDate 0 s)"
  unfolding legacyDate_def UTC_def by (auto simp: Let_def split: option.splits)

lemma time_range_has_m:
  assumes "contains is_time_range s"
  shows "\<exists>c\<in>set s. c \<in> set (js ''Mm'')"
proof -
  from assms obtain pre m post t1 sp t2 where s: "s = pre @ m @ post" "m = t1 @ sp @ t2" "is_time_token t1"
    unfolding contains_def is_time_range_def seq_def by blast
  from s(3) obtain u c where "t1 = u @ [c]" "c \<in> set (js ''Mm'')"
    unfolding is_time_token_def seq_def single_def
    by (metis append.assoc)
  then show ?thesis using s by auto
qed

lemma findIndex_ge: "-1 \<le> findIndex P xs"
  by (induction xs) (auto simp: Let_def)

lemma findIndex_none: "findIndex P xs = -1 \<longleftrightarrow> (\<forall>x\<in>set xs. \<not> P x)"
proof (induction xs)
  case Nil
  show ?case by simp
next
  case (Cons x xs)
  show ?case using Cons.IH findIndex_ge[of P xs] by (auto simp: Let_def)
qed

lemma findIndex_found:
  "findIndex P xs \<noteq> -1 \<Longrightarrow>
     0 \<le> findIndex P xs \<and> nat (findIndex P xs) < length xs \<and> P (xs ! nat (findIndex P xs))
     \<and> (\<forall>j<nat (findIndex P xs). \<not> P (xs ! j))"
proof (induction xs)
  case Nil
  then show ?case by simp
next
  case (Cons x xs)
  show ?case
  proof (cases "P x")
    case True
    then show ?thesis by simp
  next
    case False
    then have ne: "findIndex P xs \<noteq> -1" using Cons.prems by (auto simp: Let_def split: if_splits)
    then have ge: "0 \<le> findIndex P xs" using findIndex_ge[of P xs] by linarith
    have eq: "findIndex P (x # xs) = findIndex P xs + 1" using False ge by (simp add: Let_def)
    have n: "nat (findIndex P xs + 1) = Suc (nat (findIndex P xs))" using ge by simp
    from Cons.IH[OF ne] show ?thesis unfolding eq n using False ge
      by (auto simp: nth_Cons split: nat.splits)
  qed
qed

lemma str_includes_iff: "str_includes h k \<longleftrightarrow> sublist k h"
  by (induction h) (auto simp: sublist_Cons_right)

lemma list_ex_includes: "list_ex (\<lambda>k. str_includes h k) ks \<longleftrightarrow> (\<exists>k\<in>set ks. sublist k h)"
  by (simp add: list_ex_iff str_includes_iff)













section \<open>Facts about the result of the strict normalizer\<close>

lemma run_split_unique:
  assumes "list_all P a" "list_all P a'" "\<not> P x" "\<not> P x'" "a @ x # u = a' @ x' # u'"
  shows "a = a' \<and> x = x' \<and> u = u'"
proof -
  have "takeWhile P (a @ x # u) = a" "takeWhile P (a' @ x' # u') = a'"
    using assms(1-4) by (simp_all add: list_all_iff takeWhile_append2)
  then have "a = a'" using assms(5) by simp
  then show ?thesis using assms(5) by simp
qed

lemma date_tokenE:
  assumes "is_date_token m"
  obtains a b c where "m = a @ 47 # b @ 47 # c" "list_all is_digit a" "list_all is_digit b"
    "list_all is_digit c" "length c = 4"
proof -
  from assms obtain a r1 where 1: "m = a @ r1" "run_of is_digit 1 2 a"
     "seq (single (\<lambda>c. c = 47)) (seq (run_of is_digit 1 2) (seq (single (\<lambda>c. c = 47)) (run_of is_digit 4 4))) r1"
    unfolding is_date_token_def seq_def[of "run_of is_digit 1 2"] by blast
  from 1(3) obtain s1 r2 where 2: "r1 = s1 @ r2" "single (\<lambda>c. c = 47) s1"
     "seq (run_of is_digit 1 2) (seq (single (\<lambda>c. c = 47)) (run_of is_digit 4 4)) r2"
    unfolding seq_def[of "single (\<lambda>c. c = 47)" "seq (run_of is_digit 1 2) (seq (single (\<lambda>c. c = 47)) (run_of is_digit 4 4))"] by blast
  from 2(3) obtain b r3 where 3: "r2 = b @ r3" "run_of is_digit 1 2 b"
     "seq (single (\<lambda>c. c = 47)) (run_of is_digit 4 4) r3"
    unfolding seq_def[of "run_of is_digit 1 2"] by blast
  from 3(3) obtain s2 c where 4: "r3 = s2 @ c" "single (\<lambda>c. c = 47) s2" "run_of is_digit 4 4 c"
    unfolding seq_def by blast
  have "s1 = [47]" "s2 = [47]" using 2(2) 4(2) by (auto simp: single_def)
  then have "m = a @ 47 # b @ 47 # c" using 1(1) 2(1) 3(1) 4(1) by simp
  moreover have "list_all is_digit a" "list_all is_digit b" "list_all is_digit c" "length c = 4"
    using 1(2) 3(2) 4(3) by (auto simp: run_of_def)
  ultimately show ?thesis using that by blast
qed

lemma not_digit_47: "\<not> is_digit 47" "\<not> is_digit 58"
  by (simp_all add: is_digit_def)

lemma date_token_unique:
  assumes "is_date_token m" "is_date_token m'" "m @ r = m' @ r'"
  shows "m = m'"
proof -
  from assms(1) obtain a b c where m: "m = a @ 47 # b @ 47 # c" "list_all is_digit a"
    "list_all is_digit b" "list_all is_digit c" "length c = 4" by (rule date_tokenE)
  from assms(2) obtain a' b' c' where m': "m' = a' @ 47 # b' @ 47 # c'" "list_all is_digit a'"
    "list_all is_digit b'" "list_all is_digit c'" "length c' = 4" by (rule date_tokenE)
  have e: "a @ 47 # (b @ 47 # c @ r) = a' @ 47 # (b' @ 47 # c' @ r')"
    using assms(3) m(1) m'(1) by simp
  from run_split_unique[OF m(2) m'(2) not_digit_47(1) not_digit_47(1) e]
  have 1: "a = a'" "b @ 47 # (c @ r) = b' @ 47 # (c' @ r')" by simp_all
  from run_split_unique[OF m(3) m'(3) not_digit_47(1) not_digit_47(1) 1(2)]
  have 2: "b = b'" "c @ r = c' @ r'" by simp_all
  have "c = c'" using 2(2) m(5) m'(5) by (simp add: append_eq_append_conv)
  then show ?thesis using m(1) m'(1) 1(1) 2(1) by simp
qed

lemma time_tokenE:
  assumes "is_time_token m"
  obtains hh mi ws ap mk where "m = hh @ 58 # mi @ ws @ [ap, mk]" "list_all is_digit hh" "hh \<noteq> []"
    "length mi = 2" "list_all is_space ws" "ap \<in> set (js ''APap'')" "mk \<in> set (js ''Mm'')"
proof -
  let ?S5 = "seq (single (\<lambda>c. c \<in> set (js ''APap''))) (single (\<lambda>c. c \<in> set (js ''Mm'')))"
  let ?S4 = "seq (any_run is_space) ?S5"
  let ?S3 = "seq (run_of is_digit 2 2) ?S4"
  let ?S2 = "seq (single (\<lambda>c. c = 58)) ?S3"
  from assms obtain hh r1 where 1: "m = hh @ r1" "run_of is_digit 1 2 hh" "?S2 r1"
    unfolding is_time_token_def seq_def[of "run_of is_digit 1 2"] by blast
  from 1(3) obtain s1 r2 where 2: "r1 = s1 @ r2" "single (\<lambda>c. c = 58) s1" "?S3 r2"
    unfolding seq_def[of "single (\<lambda>c. c = 58)"] by blast
  from 2(3) obtain mi r3 where 3: "r2 = mi @ r3" "run_of is_digit 2 2 mi" "?S4 r3"
    unfolding seq_def[of "run_of is_digit 2 2"] by blast
  from 3(3) obtain ws r4 where 4: "r3 = ws @ r4" "any_run is_space ws" "?S5 r4"
    unfolding seq_def[of "any_run is_space"] by blast
  from 4(3) obtain x y where 5: "r4 = x @ y" "single (\<lambda>c. c \<in> set (js ''APap'')) x"
      "single (\<lambda>c. c \<in> set (js ''Mm'')) y"
    unfolding seq_def by blast
  from 5(2,3) obtain ap mk where 6: "x = [ap]" "y = [mk]" "ap \<in> set (js ''APap'')" "mk \<in> set (js ''Mm'')"
    by (auto simp: single_def)
  have "s1 = [58]" using 2(2) by (auto simp: single_def)
  then have "m = hh @ 58 # mi @ ws @ [ap, mk]" using 1(1) 2(1) 3(1) 4(1) 5(1) 6(1,2) by simp
  moreover have "list_all is_digit hh" "hh \<noteq> []" "length mi = 2" "list_all is_space ws"
    using 1(2) 3(2) 4(2) by (auto simp: run_of_def any_run_def)
  ultimately show ?thesis using that 6(3,4) by blast
qed

lemma ap_not_space: "ap \<in> set (js ''APap'') \<Longrightarrow> \<not> is_space ap"
  by (auto simp: js_simps is_space_def)

lemma digit_not_space: "is_digit c \<Longrightarrow> \<not> is_space c"
  by (auto simp: is_digit_def is_space_def)

lemma time_token_unique:
  assumes "is_time_token m" "is_time_token m'" "m @ r = m' @ r'"
  shows "m = m'"
proof -
  from assms(1) obtain hh mi ws ap mk where m: "m = hh @ 58 # mi @ ws @ [ap, mk]"
    "list_all is_digit hh" "hh \<noteq> []" "length mi = 2" "list_all is_space ws"
    "ap \<in> set (js ''APap'')" "mk \<in> set (js ''Mm'')" by (rule time_tokenE)
  from assms(2) obtain hh' mi' ws' ap' mk' where m': "m' = hh' @ 58 # mi' @ ws' @ [ap', mk']"
    "list_all is_digit hh'" "hh' \<noteq> []" "length mi' = 2" "list_all is_space ws'"
    "ap' \<in> set (js ''APap'')" "mk' \<in> set (js ''Mm'')" by (rule time_tokenE)
  have e: "hh @ 58 # (mi @ ws @ ap # mk # r) = hh' @ 58 # (mi' @ ws' @ ap' # mk' # r')"
    using assms(3) m(1) m'(1) by simp
  from run_split_unique[OF m(2) m'(2) not_digit_47(2) not_digit_47(2) e]
  have 1: "hh = hh'" "mi @ (ws @ ap # mk # r) = mi' @ (ws' @ ap' # mk' # r')" by simp_all
  have 2: "mi = mi'" "ws @ ap # (mk # r) = ws' @ ap' # (mk' # r')"
    using 1(2) m(4) m'(4) by (simp_all add: append_eq_append_conv)
  from run_split_unique[OF m(5) m'(5) ap_not_space[OF m(6)] ap_not_space[OF m'(6)] 2(2)]
  have 3: "ws = ws'" "ap = ap'" "mk = mk'" by simp_all
  show ?thesis using m(1) m'(1) 1(1) 2(1) 3 by simp
qed

lemma time_token_starts_digit:
  assumes "is_time_token m"
  obtains h u where "m = h # u" "is_digit h"
proof -
  from assms obtain hh mi ws ap mk where m: "m = hh @ 58 # mi @ ws @ [ap, mk]"
    "list_all is_digit hh" "hh \<noteq> []" by (rule time_tokenE)
  then obtain h u where "hh = h # u" by (cases hh) auto
  then show ?thesis using m that by auto
qed

lemma separatorE:
  assumes "is_separator sp"
  obtains w1 s w2 where "sp = w1 @ s # w2" "list_all is_space w1" "list_all is_space w2"
    "s = 45 \<or> s = 8211 \<or> s = 8212"
proof -
  from assms obtain w1 r1 where 1: "sp = w1 @ r1" "any_run is_space w1"
     "seq (single (\<lambda>c. c = 45 \<or> c = 8211 \<or> c = 8212)) (any_run is_space) r1"
    unfolding is_separator_def seq_def[of "any_run is_space" "seq _ _"] by blast
  from 1(3) obtain x w2 where 2: "r1 = x @ w2" "single (\<lambda>c. c = 45 \<or> c = 8211 \<or> c = 8212) x"
     "any_run is_space w2"
    unfolding seq_def by blast
  from 2(2) obtain s where "x = [s]" "s = 45 \<or> s = 8211 \<or> s = 8212" by (auto simp: single_def)
  then show ?thesis using 1 2 that by (auto simp: any_run_def)
qed

lemma sep_not_space: "s = 45 \<or> s = 8211 \<or> s = 8212 \<Longrightarrow> \<not> is_space s"
  by (auto simp: is_space_def)

lemma range_unique:
  assumes "is_time_token t1" "is_separator sp" "is_time_token t2"
    and "is_time_token t1'" "is_separator sp'" "is_time_token t2'"
    and "t1 @ sp @ t2 @ r = t1' @ sp' @ t2' @ r'"
  shows "t1 = t1' \<and> sp = sp' \<and> t2 = t2'"
proof -
  have a: "t1 = t1'" using time_token_unique[OF assms(1,4)] assms(7) by blast
  then have e: "sp @ t2 @ r = sp' @ t2' @ r'" using assms(7) by simp
  from assms(2) obtain w1 s w2 where sp: "sp = w1 @ s # w2" "list_all is_space w1"
    "list_all is_space w2" "s = 45 \<or> s = 8211 \<or> s = 8212" by (rule separatorE)
  from assms(5) obtain w1' s' w2' where sp': "sp' = w1' @ s' # w2'" "list_all is_space w1'"
    "list_all is_space w2'" "s' = 45 \<or> s' = 8211 \<or> s' = 8212" by (rule separatorE)
  from assms(3) obtain h u where t2: "t2 = h # u" "is_digit h" by (rule time_token_starts_digit)
  from assms(6) obtain h' u' where t2': "t2' = h' # u'" "is_digit h'" by (rule time_token_starts_digit)
  have e1: "w1 @ s # (w2 @ t2 @ r) = w1' @ s' # (w2' @ t2' @ r')" using e sp(1) sp'(1) by simp
  from run_split_unique[OF sp(2) sp'(2) sep_not_space[OF sp(4)] sep_not_space[OF sp'(4)] e1]
  have 1: "w1 = w1'" "s = s'" "w2 @ t2 @ r = w2' @ t2' @ r'" by simp_all
  have e2: "w2 @ h # (u @ r) = w2' @ h' # (u' @ r')" using 1(3) t2(1) t2'(1) by simp
  from run_split_unique[OF sp(3) sp'(3) digit_not_space[OF t2(2)] digit_not_space[OF t2'(2)] e2]
  have 2: "w2 = w2'" "t2 @ r = t2' @ r'" using t2(1) t2'(1) by simp_all
  have "t2 = t2'" using time_token_unique[OF assms(3,6) 2(2)] .
  then show ?thesis using a sp(1) sp'(1) 1(1,2) 2(1) by simp
qed

lemma search_Some:
  "search f pre s = Some x \<longleftrightarrow>
     (\<exists>a b. s = a @ b \<and> f (pre @ a) b = Some x
        \<and> (\<forall>a' b'. s = a' @ b' \<and> length a' < length a \<longrightarrow> f (pre @ a') b' = None))"
proof (induction s arbitrary: pre)
  case Nil
  show ?case by simp
next
  case (Cons c cs)
  show ?case
  proof (cases "f pre (c # cs)")
    case (Some y)
    have "search f pre (c # cs) = Some y" using Some by simp
    moreover have "(\<exists>a b. c # cs = a @ b \<and> f (pre @ a) b = Some x
        \<and> (\<forall>a' b'. c # cs = a' @ b' \<and> length a' < length a \<longrightarrow> f (pre @ a') b' = None))
       \<longleftrightarrow> y = x"
    proof
      assume "\<exists>a b. c # cs = a @ b \<and> f (pre @ a) b = Some x
        \<and> (\<forall>a' b'. c # cs = a' @ b' \<and> length a' < length a \<longrightarrow> f (pre @ a') b' = None)"
      then obtain a b where ab: "c # cs = a @ b" "f (pre @ a) b = Some x"
        "\<forall>a' b'. c # cs = a' @ b' \<and> length a' < length a \<longrightarrow> f (pre @ a') b' = None" by blast
      show "y = x"
      proof (cases a)
        case Nil
        then show ?thesis using ab(1,2) Some by simp
      next
        case (Cons h t)
        then have "f (pre @ []) (c # cs) = None" using ab(3) by (intro ab(3)[rule_format]) simp
        then show ?thesis using Some by simp
      qed
    next
      assume "y = x"
      then show "\<exists>a b. c # cs = a @ b \<and> f (pre @ a) b = Some x
        \<and> (\<forall>a' b'. c # cs = a' @ b' \<and> length a' < length a \<longrightarrow> f (pre @ a') b' = None)"
        using Some by (intro exI[of _ "[]"] exI[of _ "c # cs"]) simp
    qed
    ultimately show ?thesis by auto
  next
    case None
    have s: "search f pre (c # cs) = search f (pre @ [c]) cs" using None by simp
    show ?thesis unfolding s Cons.IH
    proof
      assume "\<exists>a b. cs = a @ b \<and> f ((pre @ [c]) @ a) b = Some x
        \<and> (\<forall>a' b'. cs = a' @ b' \<and> length a' < length a \<longrightarrow> f ((pre @ [c]) @ a') b' = None)"
      then obtain a b where ab: "cs = a @ b" "f (pre @ c # a) b = Some x"
        "\<forall>a' b'. cs = a' @ b' \<and> length a' < length a \<longrightarrow> f (pre @ c # a') b' = None" by auto
      have "\<forall>a' b'. c # cs = a' @ b' \<and> length a' < length (c # a) \<longrightarrow> f (pre @ a') b' = None"
      proof (intro allI impI)
        fix a' b' assume h: "c # cs = a' @ b' \<and> length a' < length (c # a)"
        show "f (pre @ a') b' = None"
        proof (cases a')
          case Nil
          then show ?thesis using h None by simp
        next
          case (Cons h' t')
          then have "h' = c" "cs = t' @ b'" "length t' < length a" using h by auto
          then show ?thesis using ab(3) Cons by auto
        qed
      qed
      then show "\<exists>a b. c # cs = a @ b \<and> f (pre @ a) b = Some x
        \<and> (\<forall>a' b'. c # cs = a' @ b' \<and> length a' < length a \<longrightarrow> f (pre @ a') b' = None)"
        using ab(1,2) by (intro exI[of _ "c # a"] exI[of _ b]) simp
    next
      assume "\<exists>a b. c # cs = a @ b \<and> f (pre @ a) b = Some x
        \<and> (\<forall>a' b'. c # cs = a' @ b' \<and> length a' < length a \<longrightarrow> f (pre @ a') b' = None)"
      then obtain a b where ab: "c # cs = a @ b" "f (pre @ a) b = Some x"
        "\<forall>a' b'. c # cs = a' @ b' \<and> length a' < length a \<longrightarrow> f (pre @ a') b' = None" by blast
      obtain t where a: "a = c # t" "cs = t @ b"
      proof (cases a)
        case Nil
        then show ?thesis using ab(1,2) None by simp
      next
        case (Cons h t)
        then show ?thesis using ab(1) that by simp
      qed
      have "\<forall>a' b'. cs = a' @ b' \<and> length a' < length t \<longrightarrow> f ((pre @ [c]) @ a') b' = None"
      proof (intro allI impI)
        fix a' b' assume h: "cs = a' @ b' \<and> length a' < length t"
        then have "c # cs = (c # a') @ b' \<and> length (c # a') < length a" using a by simp
        then have "f (pre @ (c # a')) b' = None" using ab(3) by blast
        then show "f ((pre @ [c]) @ a') b' = None" by simp
      qed
      then show "\<exists>a b. cs = a @ b \<and> f ((pre @ [c]) @ a) b = Some x
        \<and> (\<forall>a' b'. cs = a' @ b' \<and> length a' < length a \<longrightarrow> f ((pre @ [c]) @ a') b' = None)"
        using a ab(2) by (intro exI[of _ t] exI[of _ b]) simp
    qed
  qed
qed

lemma first_of_SomeD: "first_of xs = Some x \<Longrightarrow> x \<in> set xs"
  by (cases xs) (simp_all add: first_of_def)

lemma first_of_Some_ex: "xs \<noteq> [] \<Longrightarrow> \<exists>x. first_of xs = Some x"
  by (cases xs) (simp_all add: first_of_def)

lemma date_at_Some:
  "date_at pre post = Some m \<longleftrightarrow> (\<exists>r. post = m @ r \<and> is_date_token m)"
proof
  assume "date_at pre post = Some m"
  then have "m \<in> set (map (matched post) (rests re_date post))"
    unfolding date_at_def by (rule first_of_SomeD)
  then obtain r where "r \<in> set (rests re_date post)" "m = matched post r" by auto
  then show "\<exists>r. post = m @ r \<and> is_date_token m"
    unfolding rests_iff lang_re_date by auto
next
  assume "\<exists>r. post = m @ r \<and> is_date_token m"
  then obtain r where r: "post = m @ r" "is_date_token m" by blast
  then have "date_at pre post \<noteq> None" unfolding date_at_iff by blast
  then obtain m1 where m1: "date_at pre post = Some m1" by blast
  then have "m1 \<in> set (map (matched post) (rests re_date post))"
    unfolding date_at_def by (rule first_of_SomeD)
  then obtain r1 where "r1 \<in> set (rests re_date post)" "m1 = matched post r1" by auto
  then have "post = m1 @ r1" "is_date_token m1" unfolding rests_iff lang_re_date by auto
  then have "m1 = m" using date_token_unique[of m1 m r1 r] r by simp
  then show "date_at pre post = Some m" using m1 by simp
qed

lemma range_at_SomeD:
  assumes "range_at pre post = Some (g1, g2)"
  shows "\<exists>sp r. post = g1 @ sp @ g2 @ r \<and> is_time_token g1 \<and> is_separator sp \<and> is_time_token g2"
proof -
  from assms have "(g1, g2) \<in> set (concat (map (\<lambda>r1. concat (map (\<lambda>r2.
        map (\<lambda>r3. (matched post r1, matched r2 r3)) (rests re_time r2))
        (rests re_sep r1))) (rests re_time post)))"
    unfolding range_at_def by (rule first_of_SomeD)
  then obtain r1 r2 r3 where r: "r1 \<in> set (rests re_time post)" "r2 \<in> set (rests re_sep r1)"
     "r3 \<in> set (rests re_time r2)" "g1 = matched post r1" "g2 = matched r2 r3"
    by auto
  from r(1) obtain t1 where t1: "post = t1 @ r1" "is_time_token t1"
    unfolding rests_iff lang_re_time by blast
  from r(2) obtain sp where sp: "r1 = sp @ r2" "is_separator sp"
    unfolding rests_iff lang_re_sep by blast
  from r(3) obtain t2 where t2: "r2 = t2 @ r3" "is_time_token t2"
    unfolding rests_iff lang_re_time by blast
  have "g1 = t1" "g2 = t2" using r(4,5) t1(1) t2(1) by simp_all
  then show ?thesis using t1 sp t2 by auto
qed

lemma range_at_Some:
  "range_at pre post = Some (g1, g2) \<longleftrightarrow>
     (\<exists>sp r. post = g1 @ sp @ g2 @ r \<and> is_time_token g1 \<and> is_separator sp \<and> is_time_token g2)"
proof
  assume "range_at pre post = Some (g1, g2)"
  then show "\<exists>sp r. post = g1 @ sp @ g2 @ r \<and> is_time_token g1 \<and> is_separator sp \<and> is_time_token g2"
    by (rule range_at_SomeD)
next
  assume "\<exists>sp r. post = g1 @ sp @ g2 @ r \<and> is_time_token g1 \<and> is_separator sp \<and> is_time_token g2"
  then obtain sp r where r: "post = g1 @ sp @ g2 @ r" "is_time_token g1" "is_separator sp"
    "is_time_token g2" by blast
  have "is_time_range (g1 @ sp @ g2)" unfolding is_time_range_def seq_def using r(2-4) by blast
  moreover have "post = (g1 @ sp @ g2) @ r" using r(1) by simp
  ultimately have "range_at pre post \<noteq> None" unfolding range_at_iff by blast
  then obtain h1 h2 where h: "range_at pre post = Some (h1, h2)" by (cases "range_at pre post") auto
  from range_at_SomeD[OF h] obtain sp' r' where r': "post = h1 @ sp' @ h2 @ r'"
    "is_time_token h1" "is_separator sp'" "is_time_token h2" by blast
  have "h1 = g1 \<and> sp' = sp \<and> h2 = g2"
    using range_unique[OF r'(2-4) r(2-4)] r(1) r'(1) by simp
  then show "range_at pre post = Some (g1, g2)" using h by simp
qed

lemma match_date_Some:
  "match_date s = Some m \<longleftrightarrow> (\<exists>pre. leftmost is_date_token s pre m)"
proof
  assume "match_date s = Some m"
  then obtain a b where ab: "s = a @ b" "date_at a b = Some m"
     "\<forall>a' b'. s = a' @ b' \<and> length a' < length a \<longrightarrow> date_at a' b' = None"
    unfolding match_date_def search_Some by auto
  from ab(2) obtain r where r: "b = m @ r" "is_date_token m" unfolding date_at_Some by blast
  have "\<forall>pre' m' post'. s = pre' @ m' @ post' \<and> is_date_token m' \<longrightarrow> length a \<le> length pre'"
  proof (intro allI impI)
    fix pre' m' post' assume h: "s = pre' @ m' @ post' \<and> is_date_token m'"
    then have "date_at pre' (m' @ post') = Some m'" unfolding date_at_Some by blast
    then have "\<not> length pre' < length a" using ab(3) h by force
    then show "length a \<le> length pre'" by simp
  qed
  then show "\<exists>pre. leftmost is_date_token s pre m"
    unfolding leftmost_def using ab(1) r by blast
next
  assume "\<exists>pre. leftmost is_date_token s pre m"
  then obtain pre post where p: "s = pre @ m @ post" "is_date_token m"
    "\<forall>pre' m' post'. s = pre' @ m' @ post' \<and> is_date_token m' \<longrightarrow> length pre \<le> length pre'"
    unfolding leftmost_def by blast
  have 1: "date_at ([] @ pre) (m @ post) = Some m" unfolding date_at_Some using p(2) by blast
  have 2: "\<forall>a' b'. s = a' @ b' \<and> length a' < length pre \<longrightarrow> date_at ([] @ a') b' = None"
  proof (intro allI impI)
    fix a' b' assume h: "s = a' @ b' \<and> length a' < length pre"
    show "date_at ([] @ a') b' = None"
    proof (rule ccontr)
      assume "date_at ([] @ a') b' \<noteq> None"
      then obtain m' r' where "b' = m' @ r'" "is_date_token m'" unfolding date_at_iff by blast
      then have "length pre \<le> length a'" using p(3) h by blast
      then show False using h by simp
    qed
  qed
  show "match_date s = Some m" unfolding match_date_def search_Some using p(1) 1 2 by blast
qed

lemma match_range_Some:
  "match_range s = Some (g1, g2) \<longleftrightarrow>
     (\<exists>pre sp. leftmost is_time_range s pre (g1 @ sp @ g2)
        \<and> is_time_token g1 \<and> is_separator sp \<and> is_time_token g2)"
proof
  assume "match_range s = Some (g1, g2)"
  then obtain a b where ab: "s = a @ b" "range_at a b = Some (g1, g2)"
     "\<forall>a' b'. s = a' @ b' \<and> length a' < length a \<longrightarrow> range_at a' b' = None"
    unfolding match_range_def search_Some by auto
  from ab(2) obtain sp r where r: "b = g1 @ sp @ g2 @ r" "is_time_token g1" "is_separator sp"
    "is_time_token g2" unfolding range_at_Some by blast
  have tr: "is_time_range (g1 @ sp @ g2)" unfolding is_time_range_def seq_def using r(2-4) by blast
  have "\<forall>pre' m' post'. s = pre' @ m' @ post' \<and> is_time_range m' \<longrightarrow> length a \<le> length pre'"
  proof (intro allI impI)
    fix pre' m' post' assume h: "s = pre' @ m' @ post' \<and> is_time_range m'"
    then have "range_at pre' (m' @ post') \<noteq> None" unfolding range_at_iff by blast
    then have "\<not> length pre' < length a" using ab(3) h by force
    then show "length a \<le> length pre'" by simp
  qed
  then have "leftmost is_time_range s a (g1 @ sp @ g2)"
    unfolding leftmost_def using ab(1) r(1) tr by auto
  then show "\<exists>pre sp. leftmost is_time_range s pre (g1 @ sp @ g2)
        \<and> is_time_token g1 \<and> is_separator sp \<and> is_time_token g2"
    using r(2-4) by blast
next
  assume "\<exists>pre sp. leftmost is_time_range s pre (g1 @ sp @ g2)
        \<and> is_time_token g1 \<and> is_separator sp \<and> is_time_token g2"
  then obtain pre sp post where p: "s = pre @ (g1 @ sp @ g2) @ post"
    "\<forall>pre' m' post'. s = pre' @ m' @ post' \<and> is_time_range m' \<longrightarrow> length pre \<le> length pre'"
    "is_time_token g1" "is_separator sp" "is_time_token g2"
    unfolding leftmost_def by blast
  have 1: "range_at ([] @ pre) (g1 @ sp @ g2 @ post) = Some (g1, g2)"
    unfolding range_at_Some using p(3-5) by blast
  have 2: "\<forall>a' b'. s = a' @ b' \<and> length a' < length pre \<longrightarrow> range_at ([] @ a') b' = None"
  proof (intro allI impI)
    fix a' b' assume h: "s = a' @ b' \<and> length a' < length pre"
    show "range_at ([] @ a') b' = None"
    proof (rule ccontr)
      assume "range_at ([] @ a') b' \<noteq> None"
      then obtain m' r' where "b' = m' @ r'" "is_time_range m'" unfolding range_at_iff by blast
      then have "length pre \<le> length a'" using p(2) h by blast
      then show False using h by simp
    qed
  qed
  have "s = pre @ (g1 @ sp @ g2 @ post)" using p(1) by simp
  then show "match_range s = Some (g1, g2)" unfolding match_range_def search_Some using 1 2 by blast
qed

lemma parseDateTime_Some:
  "parseDateTime d t = Some r \<longleftrightarrow> strict_result d t r"
proof -
  let ?src = "if t \<noteq> [] then t else d"
  have "parseDateTime d t = Some r \<longleftrightarrow>
     (\<exists>m g1 g2. match_date d = Some m \<and> match_range ?src = Some (g1, g2)
        \<and> r = \<lparr>dt_date = m, dt_start = replace_spaces (js '' '') g1,
                dt_end = replace_spaces (js '' '') g2\<rparr>)"
    unfolding parseDateTime_def by (auto split: option.splits)
  also have "\<dots> \<longleftrightarrow>
     (\<exists>g1 g2. match_date d = Some (dt_date r) \<and> match_range ?src = Some (g1, g2)
        \<and> dt_start r = replace_spaces (js '' '') g1 \<and> dt_end r = replace_spaces (js '' '') g2)"
    by (cases r) auto
  also have "\<dots> \<longleftrightarrow> strict_result d t r"
    unfolding strict_result_def match_date_Some match_range_Some by blast
  finally show ?thesis .
qed

lemma row_dt_alt:
  "row_dt ix tr = (case parseDateTime (row_dateText ix tr) (row_timeText ix tr) of
      Some d \<Rightarrow> Some d | None \<Rightarrow> parseDateTimeLoose (sel_text (row_actCell ix tr)))"
  by (simp add: row_dt_def row_dateText_def row_timeText_def Let_def)

lemma retry_row_facts:
  "row_dateText sample_idx retry_row = js ''01/15/2024''"
  "row_timeText sample_idx retry_row = js ''10:00 - 11:30''"
  "parseDateTime (js ''01/15/2024'') (js ''10:00 - 11:30'') = None"
  "detailRow ascii_lc (legacyDate 0) sample_idx (js ''https://example.org'') retry_row = Some retry_event"
  "row_dt sample_idx sample_bad_row = None"
  by code_simp+

section \<open>The claims\<close>

text \<open>
  Claim C1. For every input HTML and base origin, every RawEvent that the structured table
  parser or the fallback parser emits has a non-empty title and two instants that the
  host parsed successfully. A row yields a record exactly when it has cells, its title
  (cell text, else the text of the first link) is not empty, and its date and time text
  parses to two valid instants; every other row is skipped without an error, and the
  output is the list of the records of the remaining rows, in row order. \<open>D\<close> is the
  host's \<open>new Date\<close>, \<open>load\<close> the host's HTML parser, \<open>lc\<close> the host's lowercasing of
  text outside Basic Latin.
\<close>

theorem parsers_emit_complete_events:
  "(\<forall>ev \<in> set (events (parseDetailHtml lc D load html b)) \<union> set (fb_events (parseFallback lc D load html b)).
      title ev \<noteq> [] \<and> (\<exists>x. D x = Some (startISO ev)) \<and> (\<exists>y. D y = Some (endISO ev)))
   \<and> (detailRow lc D ix b tr \<noteq> None \<longleftrightarrow>
        row_tds tr \<noteq> [] \<and> row_title ix tr \<noteq> [] \<and>
        (\<exists>d. row_dt ix tr = Some d \<and> D (dt_date d @ js '' '' @ dt_start d) \<noteq> None
               \<and> D (dt_date d @ js '' '' @ dt_end d) \<noteq> None))
   \<and> (fallbackBlock lc D b el \<noteq> None \<longleftrightarrow>
        test_date (clean (text_of el)) \<and> block_title el \<noteq> [] \<and>
        (\<exists>d. parseDateTimeLoose (clean (text_of el)) = Some d
               \<and> D (dt_date d @ js '' '' @ dt_start d) \<noteq> None
               \<and> D (dt_date d @ js '' '' @ dt_end d) \<noteq> None))
   \<and> events (parseTable lc D b dg tbl)
        = List.map_filter (detailRow lc D (resolve_idx (table_headers lc tbl)) b) (table_rows tbl)
   \<and> fb_events (parseFallback lc D load html b)
        = List.map_filter (fallbackBlock lc D b) (all_blocks (load html))"
proof -
  have "\<forall>ev \<in> set (events (parseDetailHtml lc D load html b)) \<union> set (fb_events (parseFallback lc D load html b)).
      title ev \<noteq> [] \<and> (\<exists>x. D x = Some (startISO ev)) \<and> (\<exists>y. D y = Some (endISO ev))"
    using parseDetailHtml_events_ok parseFallback_events_ok by blast
  moreover have "fb_events (parseFallback lc D load html b)
        = List.map_filter (fallbackBlock lc D b) (all_blocks (load html))"
    by (simp add: parseFallback_def push_each_eq)
  ultimately show ?thesis
    using detailRow_iff[of lc D ix b tr] fallbackBlock_iff[of lc D b el] events_parseTable[of lc D b dg tbl]
    by blast
qed

theorem parsers_emit_complete_events_witness:
  "sample_event \<in> set (events (parseDetailHtml ascii_lc (legacyDate 0) sample_load (js ''table'') (js ''https://example.org'')))
   \<and> title sample_event \<noteq> []
   \<and> (\<exists>x. legacyDate 0 x = Some (startISO sample_event))
   \<and> (\<exists>y. legacyDate 0 y = Some (endISO sample_event))
   \<and> detailRow ascii_lc (legacyDate 0) (resolve_idx (table_headers ascii_lc sample_table)) (js ''https://example.org'') sample_row \<noteq> None
   \<and> detailRow ascii_lc (legacyDate 0) (resolve_idx (table_headers ascii_lc sample_table)) (js ''https://example.org'') sample_bad_row = None
   \<and> row_dt (resolve_idx (table_headers ascii_lc sample_table)) sample_bad_row = None
   \<and> events (parseTable ascii_lc (legacyDate 0) (js ''https://example.org'') diag0 sample_table) = [sample_event]"
proof -
  let ?D = "legacyDate 0" and ?b = "js ''https://example.org''"
  let ?ix = "resolve_idx (table_headers ascii_lc sample_table)"
  have m: "sample_event \<in> set (events (parseDetailHtml ascii_lc ?D sample_load (js ''table'') ?b))
             \<union> set (fb_events (parseFallback ascii_lc ?D sample_load (js ''table'') ?b))"
    by (simp add: sample_detail)
  have r1: "row_tds sample_row \<noteq> [] \<and> row_title ?ix sample_row \<noteq> [] \<and>
        (\<exists>d. row_dt ?ix sample_row = Some d \<and> ?D (dt_date d @ js '' '' @ dt_start d) \<noteq> None
               \<and> ?D (dt_date d @ js '' '' @ dt_end d) \<noteq> None)"
  proof -
    have "row_dt ?ix sample_row = Some \<lparr>dt_date = js ''01/15/2024'', dt_start = js ''10:00 AM'', dt_end = js ''11:30 AM''\<rparr>"
      by code_simp
    moreover have "?D (js ''01/15/2024'' @ js '' '' @ js ''10:00 AM'') \<noteq> None"
       "?D (js ''01/15/2024'' @ js '' '' @ js ''11:30 AM'') \<noteq> None"
      by code_simp+
    moreover have "row_tds sample_row \<noteq> []" "row_title ?ix sample_row \<noteq> []"
      by code_simp+
    ultimately show ?thesis by simp
  qed
  have r2: "row_dt ?ix sample_bad_row = None" by code_simp
  have r3: "List.map_filter (detailRow ascii_lc ?D ?ix ?b) (table_rows sample_table) = [sample_event]"
    by code_simp
  note T = parsers_emit_complete_events[of ascii_lc ?D sample_load "js ''table''" ?b ?ix sample_row]
  note T2 = parsers_emit_complete_events[of ascii_lc ?D sample_load "js ''table''" ?b ?ix sample_bad_row]
  note T3 = parsers_emit_complete_events[of ascii_lc ?D sample_load "js ''table''" ?b ?ix sample_row sample_row diag0 sample_table]
  have e: "title sample_event \<noteq> [] \<and> (\<exists>x. ?D x = Some (startISO sample_event))
     \<and> (\<exists>y. ?D y = Some (endISO sample_event))"
    using T m by blast
  have d1: "detailRow ascii_lc ?D ?ix ?b sample_row \<noteq> None" using T r1 by blast
  have d2: "detailRow ascii_lc ?D ?ix ?b sample_bad_row = None" using T2 r2 by auto
  have d3: "events (parseTable ascii_lc ?D ?b diag0 sample_table) = [sample_event]" using T3 r3 by simp
  show ?thesis using m e d1 d2 d3 r2 by (simp add: sample_detail)
qed



text \<open>
  Claim C7. For every input HTML, the fallback text parser is invoked if and only if the
  structured table parser yields zero events: then the raw events are those of the fallback
  parser and the diagnostics record \<open>fallbackUsed = true\<close> with their count. When the
  structured parser yields at least one event, the raw events and the diagnostics are
  exactly the structured parser's, and no fallback field is set.
\<close>

theorem fallback_iff_structured_empty:
  "(events (parseDetailHtml lc D load html b) = []
      \<longrightarrow> rawStage lc D load html b =
           (fb_events (parseFallback lc D load html b),
            (pdiag (parseDetailHtml lc D load html b))
              \<lparr>fallbackUsed := Some True,
               fallbackCount := Some (length (fb_events (parseFallback lc D load html b)))\<rparr>))
   \<and> (events (parseDetailHtml lc D load html b) \<noteq> []
      \<longrightarrow> rawStage lc D load html b =
           (events (parseDetailHtml lc D load html b), pdiag (parseDetailHtml lc D load html b))
        \<and> fallbackUsed (snd (rawStage lc D load html b)) = None
        \<and> fallbackCount (snd (rawStage lc D load html b)) = None)
   \<and> (fallbackUsed (snd (rawStage lc D load html b)) = Some True
        \<longleftrightarrow> events (parseDetailHtml lc D load html b) = [])"
  using fallbackUsed_detail[of lc D load html b]
  by (auto simp: rawStage_def Let_def parseDetailHtml_def parseTable_def diag0_def split: option.splits)

theorem fallback_iff_structured_empty_witness:
  "events (parseDetailHtml ascii_lc (legacyDate 0) sample_load (js ''list'') (js ''https://example.org'')) = []
   \<and> fst (rawStage ascii_lc (legacyDate 0) sample_load (js ''list'') (js ''https://example.org'')) = [sample_fb_event]
   \<and> fallbackUsed (snd (rawStage ascii_lc (legacyDate 0) sample_load (js ''list'') (js ''https://example.org''))) = Some True
   \<and> events (parseDetailHtml ascii_lc (legacyDate 0) sample_load (js ''table'') (js ''https://example.org'')) \<noteq> []
   \<and> fst (rawStage ascii_lc (legacyDate 0) sample_load (js ''table'') (js ''https://example.org'')) = [sample_event]
   \<and> fallbackUsed (snd (rawStage ascii_lc (legacyDate 0) sample_load (js ''table'') (js ''https://example.org''))) = None"
proof -
  let ?D = "legacyDate 0" and ?b = "js ''https://example.org''"
  have a: "events (parseDetailHtml ascii_lc ?D sample_load (js ''list'') ?b) = []"
    by (simp add: sample_detail_list)
  have b: "events (parseDetailHtml ascii_lc ?D sample_load (js ''table'') ?b) \<noteq> []"
    by (simp add: sample_detail)
  from fallback_iff_structured_empty[of ascii_lc ?D sample_load "js ''list''" ?b] a
  have 1: "rawStage ascii_lc ?D sample_load (js ''list'') ?b =
           (fb_events (parseFallback ascii_lc ?D sample_load (js ''list'') ?b),
            (pdiag (parseDetailHtml ascii_lc ?D sample_load (js ''list'') ?b))
              \<lparr>fallbackUsed := Some True,
               fallbackCount := Some (length (fb_events (parseFallback ascii_lc ?D sample_load (js ''list'') ?b)))\<rparr>)"
    by blast
  from fallback_iff_structured_empty[of ascii_lc ?D sample_load "js ''table''" ?b] b
  have 2: "rawStage ascii_lc ?D sample_load (js ''table'') ?b =
           (events (parseDetailHtml ascii_lc ?D sample_load (js ''table'') ?b), pdiag (parseDetailHtml ascii_lc ?D sample_load (js ''table'') ?b))
        \<and> fallbackUsed (snd (rawStage ascii_lc ?D sample_load (js ''table'') ?b)) = None"
    by blast
  show ?thesis using a b 1 2 by (simp add: sample_fallback sample_detail)
qed

text \<open>
  Claim C8, amended. For every non-empty href and every base origin, link absolutization
  returns the href unchanged if it begins with \<open>http://\<close> or \<open>https://\<close> in any letter
  case, or if the base origin is empty; otherwise it prefixes the href with the base
  origin, inserting a \<open>/\<close> exactly when the href does not already start with one. An absent
  or empty href gives \<open>null\<close>. In particular \<open>/detail/123\<close> with base origin
  \<open>https://example.org\<close> resolves to \<open>https://example.org/detail/123\<close>.
\<close>

theorem absolutize_cases:
  "absolutize None b = None \<and> absolutize (Some []) b = None \<and>
   (h \<noteq> [] \<longrightarrow> absolutize (Some h) b =
      Some (if is_absolute h \<or> b = [] then h
            else if startsWith h (js ''/'') then b @ h else b @ js ''/'' @ h))
   \<and> absolutize (Some (js ''/detail/123'')) (js ''https://example.org'')
        = Some (js ''https://example.org/detail/123'')"
proof -
  have "absolutize (Some (js ''/detail/123'')) (js ''https://example.org'')
        = Some (js ''https://example.org/detail/123'')"
    by code_simp
  then show ?thesis
    by (auto simp: absolutize_def test_http_iff)
qed

theorem absolutize_cases_witness:
  "js ''detail/123'' \<noteq> [] \<and> \<not> is_absolute (js ''detail/123'')
   \<and> absolutize (Some (js ''detail/123'')) (js ''https://example.org'')
        = Some (js ''https://example.org/detail/123'')
   \<and> is_absolute (js ''HTTPS://example.com/a'')
   \<and> absolutize (Some (js ''HTTPS://example.com/a'')) (js ''https://example.org'')
        = Some (js ''HTTPS://example.com/a'')"
proof -
  have a: "js ''detail/123'' \<noteq> []" "\<not> is_absolute (js ''detail/123'')"
     "\<not> startsWith (js ''detail/123'') (js ''/'')"
     "js ''https://example.org'' \<noteq> []"
     "js ''https://example.org'' @ js ''/'' @ js ''detail/123'' = js ''https://example.org/detail/123''"
    by code_simp+
  have b: "js ''HTTPS://example.com/a'' \<noteq> []" "is_absolute (js ''HTTPS://example.com/a'')"
    by code_simp+
  show ?thesis
    using absolutize_cases[of "js ''https://example.org''" "js ''detail/123''"]
          absolutize_cases[of "js ''https://example.org''" "js ''HTTPS://example.com/a''"] a b
    by simp
qed

text \<open>
  Claim C8 as stated fails for an empty base origin: the relative href \<open>detail/123\<close> is
  returned as it is, where the claim prefixes the (empty) origin and a \<open>/\<close>.
\<close>

theorem absolutize_counterexample:
  "absolutize (Some (js ''detail/123'')) (js '''') = Some (js ''detail/123'')
   \<and> absolutize_as_claimed (js ''detail/123'') (js '''') = js ''/detail/123''
   \<and> absolutize (Some (js ''detail/123'')) (js '''') \<noteq> Some (absolutize_as_claimed (js ''detail/123'') (js ''''))"
  by code_simp

text \<open>
  Claim C10. For every title and location, the classifier returns one of the four names
  Aquatics, Court Sports, Community, Schedule. Consequently the color lookup yields one of
  the four palette entries, so that the destructuring of \<open>PALETTE[colorKey]\<close> cannot fail;
  the slug of the name is not empty, so that the fallback to \<open>schedule\<close> is never taken;
  the bucket key is one of the four fixed slugs; and one round of the handler's loop on an
  event with such a name does not throw.
\<close>

theorem classifier_total_on_four_names:
  "guessCal lc t l \<in> set cal_names
   \<and> colorForCal (guessCal lc t l) \<in> set (map fst PALETTE)
   \<and> (\<exists>bg txt border. map_of PALETTE (colorForCal (guessCal lc t l)) = Some (bg, txt, border))
   \<and> slug lc (guessCal lc t l) \<noteq> []
   \<and> bucket_key lc (guessCal lc t l) = slug lc (guessCal lc t l)
   \<and> bucket_key lc (guessCal lc t l) \<in> set cal_slugs
   \<and> project_step lc tz monday c (ev\<lparr>cal := guessCal lc t l\<rparr>) \<noteq> Inl TypeError"
proof -
  have n: "guessCal lc t l \<in> set cal_names" by (rule guessCal_names)
  obtain col where col: "map_of PALETTE (colorForCal (guessCal lc t l)) = Some col"
    using palette_defined[OF n] by blast
  then have "colorForCal (guessCal lc t l) \<in> set (map fst PALETTE)"
    by (metis map_of_eq_None_iff option.distinct(1) set_map)
  moreover have "\<exists>bg txt border. map_of PALETTE (colorForCal (guessCal lc t l)) = Some (bg, txt, border)"
    using col by (cases col) auto
  moreover have "\<exists>c'. project_step lc tz monday c (ev\<lparr>cal := guessCal lc t l\<rparr>) = Inr c'"
    using project_step_ok[of "ev\<lparr>cal := guessCal lc t l\<rparr>" lc tz monday c] n by simp
  ultimately show ?thesis using n key_in_slugs[OF n, of lc] by auto
qed

text \<open>
  Claim C3, amended. For every pair of text fields, the strict date and time normalizer
  returns a triple exactly when the date field contains a date token (one or two digits, a
  slash, one or two digits, a slash, four digits) and the text searched for the time
  range, which is the time field if that is not empty and the date field only if the time
  field is empty, contains two times of the form digits, colon, two digits, optional white
  space, AM or PM in either case, separated by a hyphen, an en dash or an em dash with
  optional white space around it. The triple then holds the leftmost date token and the two
  times of the leftmost time range, their white space collapsed to one blank. Date
  01/15/2024 with time 10:00 AM - 11:30 AM gives the strings that the host reads as local
  10:00 and local 11:30 on 2024-01-15, whatever the fixed offset \<open>tz\<close> of the zone. For a
  time range without its AM/PM markers the strict normalizer returns no triple; the row
  then yields no event unless the loose retry over the text of its activity cell finds a
  date and a time range there.
\<close>

theorem parseDateTime_strict:
  "(parseDateTime d t = Some r \<longleftrightarrow> strict_result d t r)
   \<and> (parseDateTime d t \<noteq> None \<longleftrightarrow>
        contains is_date_token d \<and> contains is_time_range (if t \<noteq> [] then t else d))
   \<and> parseDateTime (js ''01/15/2024'') (js ''10:00 AM - 11:30 AM'')
       = Some \<lparr>dt_date = js ''01/15/2024'', dt_start = js ''10:00 AM'', dt_end = js ''11:30 AM''\<rparr>
   \<and> toISO (legacyDate tz) (js ''01/15/2024'' @ js '' '' @ js ''10:00 AM'')
       = Some (UTC tz (MakeDate (MakeDay 2024 0 15) (MakeTime 10 0 0 0)))
   \<and> toISO (legacyDate tz) (js ''01/15/2024'' @ js '' '' @ js ''11:30 AM'')
       = Some (UTC tz (MakeDate (MakeDay 2024 0 15) (MakeTime 11 30 0 0)))
   \<and> getHours tz (UTC tz (MakeDate (MakeDay 2024 0 15) (MakeTime 10 0 0 0))) = 10
   \<and> getMinutes tz (UTC tz (MakeDate (MakeDay 2024 0 15) (MakeTime 10 0 0 0))) = 0
   \<and> getHours tz (UTC tz (MakeDate (MakeDay 2024 0 15) (MakeTime 11 30 0 0))) = 11
   \<and> getMinutes tz (UTC tz (MakeDate (MakeDay 2024 0 15) (MakeTime 11 30 0 0))) = 30
   \<and> parseDateTime (js ''01/15/2024'') (js ''10:00 - 11:30'') = None
   \<and> ((\<forall>c\<in>set (if t \<noteq> [] then t else d). c \<notin> set (js ''Mm'')) \<longrightarrow> parseDateTime d t = None)
   \<and> (row_dt ix tr = None \<longleftrightarrow>
        parseDateTime (row_dateText ix tr) (row_timeText ix tr) = None
        \<and> parseDateTimeLoose (sel_text (row_actCell ix tr)) = None)
   \<and> (row_dt ix tr = None \<longrightarrow> detailRow lc D ix b tr = None)"
proof -
  have ex: "parseDateTime (js ''01/15/2024'') (js ''10:00 AM - 11:30 AM'')
       = Some \<lparr>dt_date = js ''01/15/2024'', dt_start = js ''10:00 AM'', dt_end = js ''11:30 AM''\<rparr>"
     "parseDateTime (js ''01/15/2024'') (js ''10:00 - 11:30'') = None"
    by code_simp+
  have l: "legacyDate 0 (js ''01/15/2024'' @ js '' '' @ js ''10:00 AM'') = Some 1705312800000"
     "legacyDate 0 (js ''01/15/2024'' @ js '' '' @ js ''11:30 AM'') = Some 1705318200000"
    by code_simp+
  have m: "MakeDate (MakeDay 2024 0 15) (MakeTime 10 0 0 0) = 1705312800000"
     "MakeDate (MakeDay 2024 0 15) (MakeTime 11 30 0 0) = 1705318200000"
    by code_simp+
  have iso: "toISO (legacyDate tz) (js ''01/15/2024'' @ js '' '' @ js ''10:00 AM'')
       = Some (UTC tz (MakeDate (MakeDay 2024 0 15) (MakeTime 10 0 0 0)))"
     "toISO (legacyDate tz) (js ''01/15/2024'' @ js '' '' @ js ''11:30 AM'')
       = Some (UTC tz (MakeDate (MakeDay 2024 0 15) (MakeTime 11 30 0 0)))"
    unfolding toISO_def m by (simp_all add: legacyDate_shift[of tz] l UTC_def)
  have g: "getHours tz (UTC tz (MakeDate (MakeDay 2024 0 15) (MakeTime 10 0 0 0))) = 10"
     "getMinutes tz (UTC tz (MakeDate (MakeDay 2024 0 15) (MakeTime 10 0 0 0))) = 0"
     "getHours tz (UTC tz (MakeDate (MakeDay 2024 0 15) (MakeTime 11 30 0 0))) = 11"
     "getMinutes tz (UTC tz (MakeDate (MakeDay 2024 0 15) (MakeTime 11 30 0 0))) = 30"
    unfolding m by (simp_all add: getHours_def getMinutes_def UTC_def LocalTime_def)
  have n: "(\<forall>c\<in>set (if t \<noteq> [] then t else d). c \<notin> set (js ''Mm'')) \<longrightarrow> parseDateTime d t = None"
    using parseDateTime_iff[of d t] time_range_has_m[of "if t \<noteq> [] then t else d"] by blast
  have r1: "row_dt ix tr = None \<longleftrightarrow>
        parseDateTime (row_dateText ix tr) (row_timeText ix tr) = None
        \<and> parseDateTimeLoose (sel_text (row_actCell ix tr)) = None"
    unfolding row_dt_alt by (auto split: option.splits)
  have r2: "row_dt ix tr = None \<longrightarrow> detailRow lc D ix b tr = None"
    by (simp add: detailRow_def Let_def)
  show ?thesis
    by (intro conjI parseDateTime_Some parseDateTime_iff ex iso g n r1 r2)
qed

theorem parseDateTime_strict_witness:
  "strict_result (js ''1/5/2024'') (js ''9:00am'' @ [8211] @ js ''10:15 PM'')
      \<lparr>dt_date = js ''1/5/2024'', dt_start = js ''9:00am'', dt_end = js ''10:15 PM''\<rparr>
   \<and> contains is_date_token (js ''1/5/2024'')
   \<and> contains is_time_range (js ''9:00am'' @ [8211] @ js ''10:15 PM'')
   \<and> parseDateTime (js ''1/5/2024'') (js ''9:00am'' @ [8211] @ js ''10:15 PM'')
       = Some \<lparr>dt_date = js ''1/5/2024'', dt_start = js ''9:00am'', dt_end = js ''10:15 PM''\<rparr>
   \<and> list_all (\<lambda>c. c \<notin> set (js ''Mm'')) (js ''10:00 - 11:30'')
   \<and> parseDateTime (js ''01/15/2024'') (js ''10:00 - 11:30'') = None
   \<and> row_dt sample_idx sample_bad_row = None
   \<and> detailRow ascii_lc (legacyDate 0) sample_idx (js ''https://example.org'') sample_bad_row = None
   \<and> parseDateTimeLoose (sel_text (row_actCell sample_idx sample_bad_row)) = None"
proof -
  let ?r = "\<lparr>dt_date = js ''1/5/2024'', dt_start = js ''9:00am'', dt_end = js ''10:15 PM''\<rparr>"
  have e: "parseDateTime (js ''1/5/2024'') (js ''9:00am'' @ [8211] @ js ''10:15 PM'') = Some ?r"
    "js ''9:00am'' @ [8211] @ js ''10:15 PM'' \<noteq> []"
    "js ''10:00 - 11:30'' \<noteq> []"
    by code_simp+
  have h: "\<forall>c\<in>set (js ''10:00 - 11:30''). c \<notin> set (js ''Mm'')"
    by code_simp
  note T = parseDateTime_strict[of "js ''1/5/2024''" "js ''9:00am'' @ [8211] @ js ''10:15 PM''" ?r 0
     sample_idx sample_bad_row ascii_lc "legacyDate 0" "js ''https://example.org''"]
  note T2 = parseDateTime_strict[of "js ''01/15/2024''" "js ''10:00 - 11:30''" ?r 0
     sample_idx sample_bad_row ascii_lc "legacyDate 0" "js ''https://example.org''"]
  have a: "strict_result (js ''1/5/2024'') (js ''9:00am'' @ [8211] @ js ''10:15 PM'') ?r"
    using T[THEN conjunct1] e(1) by simp
  have a2: "contains is_date_token (js ''1/5/2024'')
     \<and> contains is_time_range (js ''9:00am'' @ [8211] @ js ''10:15 PM'')"
    using T[THEN conjunct2, THEN conjunct1] e(1,2) by simp
  have b: "parseDateTime (js ''01/15/2024'') (js ''10:00 - 11:30'') = None"
    using T2 h e(3) by simp
  have c: "detailRow ascii_lc (legacyDate 0) sample_idx (js ''https://example.org'') sample_bad_row = None"
    "parseDateTimeLoose (sel_text (row_actCell sample_idx sample_bad_row)) = None"
    using T retry_row_facts(5) by simp_all
  show ?thesis using a a2 b c e h retry_row_facts(5) by (simp add: list_all_iff)
qed

text \<open>
  Claim C3 as stated fails twice. A date field that holds both the date and the time range
  gives no triple when the time field is not empty and holds no range: the date field is
  searched only for an empty time field. And a row whose time cell lacks the AM/PM markers
  still yields an event when the loose retry succeeds on its activity cell.
\<close>

theorem parseDateTime_counterexample:
  "strict_as_claimed (js ''01/15/2024 10:00 AM - 11:30 AM'') (js ''TBD'')
   \<and> parseDateTime (js ''01/15/2024 10:00 AM - 11:30 AM'') (js ''TBD'') = None
   \<and> parseDateTime (row_dateText sample_idx retry_row) (row_timeText sample_idx retry_row) = None
   \<and> detailRow ascii_lc (legacyDate 0) sample_idx (js ''https://example.org'') retry_row
       = Some retry_event"
proof -
  let ?d = "js ''01/15/2024 10:00 AM - 11:30 AM''"
  have "parseDateTime ?d [] \<noteq> None" by code_simp
  then have "contains is_date_token ?d \<and> contains is_time_range ?d"
    unfolding parseDateTime_iff by simp
  then have "strict_as_claimed ?d (js ''TBD'')" by (simp add: strict_as_claimed_def)
  moreover have "parseDateTime ?d (js ''TBD'') = None" by code_simp
  ultimately show ?thesis using retry_row_facts by simp
qed

text \<open>
  Claim C4, amended. For every title and optional location, the classifier lowercases
  their concatenation with the host's \<open>toLowerCase\<close> (whatever that does beyond Basic
  Latin: \<open>lc\<close> is arbitrary) and returns Aquatics if the lowercased text contains any of
  aqua, water, swim, pool as a whole word, that is with no ASCII letter, ASCII digit or
  underscore directly before or behind it; otherwise Court Sports for pickleball,
  basketball, volleyball, court; otherwise Community for yoga, coffee, teen, community,
  wellness; otherwise Schedule. The first matching group in this order wins, so the
  title Aqua Basketball Clinic classifies as Aquatics, while Swimming Lessons, which has
  no keyword as a whole word, classifies as Schedule.
\<close>

theorem guessCal_whole_words:
  "guessCal lc ttl loc =
     (let t = toLowerCase lc (ttl @ js '' '' @ (case loc of None \<Rightarrow> [] | Some l \<Rightarrow> l)) in
      if has_word aquatics_words t then js ''Aquatics''
      else if has_word court_words t then js ''Court Sports''
      else if has_word community_words t then js ''Community''
      else js ''Schedule'')
   \<and> guessCal lc (js ''Aqua Basketball Clinic'') None = js ''Aquatics''
   \<and> guessCal lc (js ''Swimming Lessons'') None = js ''Schedule''"
proof -
  have e: "guessCal lc (js ''Aqua Basketball Clinic'') None = js ''Aquatics''
     \<and> guessCal lc (js ''Swimming Lessons'') None = js ''Schedule''" by code_simp
  have t: "test_bwords aquatics_words = has_word aquatics_words"
    "test_bwords court_words = has_word court_words"
    "test_bwords community_words = has_word community_words"
    by (rule ext, rule test_bwords_iff, rule wordy_lists)+
  have g: "guessCal lc ttl loc =
     (let t = toLowerCase lc (ttl @ js '' '' @ (case loc of None \<Rightarrow> [] | Some l \<Rightarrow> l)) in
      if has_word aquatics_words t then js ''Aquatics''
      else if has_word court_words t then js ''Court Sports''
      else if has_word community_words t then js ''Community''
      else js ''Schedule'')"
    unfolding guessCal_def cal_text_def t ..
  show ?thesis using e g by (rule conjI[rotated])
qed

theorem guessCal_whole_words_witness:
  "has_word aquatics_words (toLowerCase ascii_lc (js ''Aqua Basketball Clinic'' @ js '' '' @ []))
   \<and> has_word court_words (toLowerCase ascii_lc (js ''Aqua Basketball Clinic'' @ js '' '' @ []))
   \<and> guessCal ascii_lc (js ''Aqua Basketball Clinic'') None = js ''Aquatics''
   \<and> \<not> has_word aquatics_words (toLowerCase ascii_lc (js ''Swimming Lessons'' @ js '' '' @ []))
   \<and> guessCal ascii_lc (js ''Swimming Lessons'') None = js ''Schedule''
   \<and> guessCal ascii_lc (js ''Lap Swim'') (Some (js ''Pool'')) = js ''Aquatics''
   \<and> guessCal ascii_lc ([233] @ js ''swim'') None = js ''Aquatics''"
proof -
  have e: "guessCal ascii_lc (js ''Aqua Basketball Clinic'') None = js ''Aquatics''"
     "guessCal ascii_lc (js ''Swimming Lessons'') None = js ''Schedule''"
     "guessCal ascii_lc (js ''Lap Swim'') (Some (js ''Pool'')) = js ''Aquatics''"
     "test_bwords court_words (toLowerCase ascii_lc (js ''Aqua Basketball Clinic'' @ js '' '' @ []))"
     "guessCal ascii_lc ([233] @ js ''swim'') None = js ''Aquatics''"
    by code_simp+
  have d: "js ''Aquatics'' \<noteq> js ''Court Sports''" "js ''Aquatics'' \<noteq> js ''Community''"
     "js ''Aquatics'' \<noteq> js ''Schedule''"
    by code_simp+
  have c: "has_word court_words (toLowerCase ascii_lc (js ''Aqua Basketball Clinic'' @ js '' '' @ []))"
    using e(4) by (simp add: test_bwords_iff wordy_lists)
  have a: "has_word aquatics_words (toLowerCase ascii_lc (js ''Aqua Basketball Clinic'' @ js '' '' @ []))"
    using guessCal_whole_words[of ascii_lc "js ''Aqua Basketball Clinic''" None] e(1) d
    by (auto simp: Let_def split: if_splits)
  have b: "\<not> has_word aquatics_words (toLowerCase ascii_lc (js ''Swimming Lessons'' @ js '' '' @ []))"
    using guessCal_whole_words[of ascii_lc "js ''Swimming Lessons''" None] e(2) d
    by (auto simp: Let_def split: if_splits)
  show ?thesis using a b c e by simp
qed

text \<open>
  Claim C4 as stated fails: the title Swimming Lessons contains \<open>swim\<close>, yet the word
  boundaries of the pattern reject it and the classifier answers Schedule.
\<close>

theorem guessCal_counterexample:
  "str_includes (cal_text ascii_lc (js ''Swimming Lessons'') None) (js ''swim'')
   \<and> guessCal_as_claimed ascii_lc (js ''Swimming Lessons'') None = js ''Aquatics''
   \<and> guessCal ascii_lc (js ''Swimming Lessons'') None = js ''Schedule''
   \<and> guessCal ascii_lc (js ''Swimming Lessons'') None \<noteq> guessCal_as_claimed ascii_lc (js ''Swimming Lessons'') None"
  by code_simp

text \<open>
  Claim C5, amended. For every list of lowercased, whitespace-normalized header texts, each
  of the four column roles resolves to the index of the first header, in header order, that
  contains any keyword of the role as a substring; the order of the keywords within a role
  has no influence. A role with no matching header resolves to -1, and a row with an
  unresolved activity role reads its title from column 0. For the headers Date, Time,
  Activity, Location the indices are (0,1,2,3); for Class, Date/Time, Room the activity
  role resolves to 0 (and both the date and the time role to 1).
\<close>

theorem findHeader_first_header:
  "(findHeader hs ks = -1 \<longleftrightarrow> (\<forall>h\<in>set hs. \<forall>k\<in>set ks. \<not> sublist k h))
   \<and> (findHeader hs ks \<noteq> -1 \<longrightarrow>
        0 \<le> findHeader hs ks \<and> nat (findHeader hs ks) < length hs
        \<and> (\<exists>k\<in>set ks. sublist k (hs ! nat (findHeader hs ks)))
        \<and> (\<forall>j<nat (findHeader hs ks). \<forall>k\<in>set ks. \<not> sublist k (hs ! j)))
   \<and> (set ks = set ks' \<longrightarrow> findHeader hs ks = findHeader hs ks')
   \<and> resolve_idx (map (\<lambda>h. toLowerCase lc (clean h))
         [js ''Date'', js ''Time'', js ''Activity'', js ''Location''])
       = \<lparr>idxDate = 0, idxTime = 1, idxAct = 2, idxLoc = 3\<rparr>
   \<and> resolve_idx (map (\<lambda>h. toLowerCase lc (clean h)) [js ''Class'', js ''Date/Time'', js ''Room''])
       = \<lparr>idxDate = 1, idxTime = 1, idxAct = 0, idxLoc = 2\<rparr>
   \<and> (idxAct ix < 0 \<longrightarrow> row_actCell ix tr = eq_sel (row_tds tr) 0)"
proof -
  let ?P = "\<lambda>h. list_ex (\<lambda>k. str_includes h k) ks"
  have a: "findHeader hs ks = -1 \<longleftrightarrow> (\<forall>h\<in>set hs. \<forall>k\<in>set ks. \<not> sublist k h)"
    unfolding findHeader_def findIndex_none list_ex_includes by blast
  have b: "findHeader hs ks \<noteq> -1 \<longrightarrow>
        0 \<le> findHeader hs ks \<and> nat (findHeader hs ks) < length hs
        \<and> (\<exists>k\<in>set ks. sublist k (hs ! nat (findHeader hs ks)))
        \<and> (\<forall>j<nat (findHeader hs ks). \<forall>k\<in>set ks. \<not> sublist k (hs ! j))"
    using findIndex_found[of ?P hs] unfolding findHeader_def list_ex_includes by blast
  have c: "set ks = set ks' \<longrightarrow> findHeader hs ks = findHeader hs ks'"
  proof
    assume "set ks = set ks'"
    then have "(\<lambda>h. list_ex (\<lambda>k. str_includes h k) ks) = (\<lambda>h. list_ex (\<lambda>k. str_includes h k) ks')"
      by (simp add: list_ex_iff)
    then show "findHeader hs ks = findHeader hs ks'" unfolding findHeader_def by simp
  qed
  have d: "resolve_idx (map (\<lambda>h. toLowerCase lc (clean h))
         [js ''Date'', js ''Time'', js ''Activity'', js ''Location''])
       = \<lparr>idxDate = 0, idxTime = 1, idxAct = 2, idxLoc = 3\<rparr>"
    "resolve_idx (map (\<lambda>h. toLowerCase lc (clean h)) [js ''Class'', js ''Date/Time'', js ''Room''])
       = \<lparr>idxDate = 1, idxTime = 1, idxAct = 0, idxLoc = 2\<rparr>"
    by code_simp+
  have e: "idxAct ix < 0 \<longrightarrow> row_actCell ix tr = eq_sel (row_tds tr) 0"
    by (simp add: row_actCell_def)
  show ?thesis using a b c d e by blast
qed

theorem findHeader_first_header_witness:
  "findHeader [js ''start'', js ''time''] [js ''time'', js ''hours'', js ''start''] = 0
   \<and> sublist (js ''start'') ([js ''start'', js ''time''] ! 0)
   \<and> findHeader [js ''start'', js ''time''] [js ''start'', js ''hours'', js ''time''] = 0
   \<and> findHeader [js ''date'', js ''room''] [js ''time'', js ''hours'', js ''start''] = -1
   \<and> list_all (\<lambda>h. list_all (\<lambda>k. \<not> sublist k h) [js ''time'', js ''hours'', js ''start''])
        [js ''date'', js ''room'']
   \<and> row_actCell \<lparr>idxDate = 0, idxTime = 1, idxAct = -1, idxLoc = -1\<rparr> sample_row
       = eq_sel (row_tds sample_row) 0"
proof -
  let ?hs = "[js ''start'', js ''time'']" and ?ks = "[js ''time'', js ''hours'', js ''start'']"
  let ?ks' = "[js ''start'', js ''hours'', js ''time'']"
  let ?ix = "\<lparr>idxDate = 0, idxTime = 1, idxAct = -1, idxLoc = -1\<rparr>"
  have e: "findHeader ?hs ?ks = 0" "findHeader [js ''date'', js ''room''] ?ks = -1"
    "str_includes (?hs ! 0) (js ''start'')"
    by code_simp+
  have s: "set ?ks = set ?ks'" by auto
  have i: "idxAct ?ix < 0" by simp
  note T = findHeader_first_header[of ?hs ?ks ?ks' ascii_lc ?ix sample_row]
  note T2 = findHeader_first_header[of "[js ''date'', js ''room'']" ?ks ?ks' ascii_lc ?ix sample_row]
  have 1: "findHeader ?hs ?ks' = 0" using T s e(1) by simp
  have 2: "\<forall>h\<in>set [js ''date'', js ''room'']. \<forall>k\<in>set ?ks. \<not> sublist k h"
    using T2 e(2) by blast
  have 3: "row_actCell ?ix sample_row = eq_sel (row_tds sample_row) 0" using T i by blast
  have 4: "list_all (\<lambda>h. list_all (\<lambda>k. \<not> sublist k h) ?ks) [js ''date'', js ''room'']"
    using 2 by (simp add: list_all_iff)
  show ?thesis using e 1 3 4 by (simp add: str_includes_iff)
qed

text \<open>
  Claim C5 as stated fails: with the headers \<open>start\<close>, \<open>time\<close> the time role resolves to
  column 0, the first header that contains some keyword, although the keyword \<open>time\<close>,
  first in the priority list, matches column 1.
\<close>

theorem findHeader_counterexample:
  "findHeader [js ''start'', js ''time''] [js ''time'', js ''hours'', js ''start''] = 0
   \<and> findHeader_as_claimed [js ''start'', js ''time''] [js ''time'', js ''hours'', js ''start''] = 1
   \<and> findHeader [js ''start'', js ''time''] [js ''time'', js ''hours'', js ''start'']
       \<noteq> findHeader_as_claimed [js ''start'', js ''time''] [js ''time'', js ''hours'', js ''start'']"
  by code_simp



end
